theory Spec2Isabelle
  imports Main "HOL-Library.Sublist"
begin

section \<open>Python string operations used by the scaffolder\<close>

text \<open>
  The module \<^verbatim>\<open>operations/base/utils/__init__.py\<close> calls four methods of Python's
  \<^verbatim>\<open>str\<close>: \<^verbatim>\<open>split\<close>, \<^verbatim>\<open>title\<close>, \<^verbatim>\<open>lower\<close> and \<^verbatim>\<open>replace\<close>.
  A Python string is modelled as a \<^typ>\<open>string\<close> whose characters are its code points,
  so the model covers text of code points below U+0100: ASCII and the Latin-1
  supplement. On these, \<^verbatim>\<open>lower\<close> and \<^verbatim>\<open>title\<close> follow Python's Unicode tables: the
  letters with a lowercase or an uppercase partner are the 26 ASCII pairs and the 30
  pairs U+00C0..U+00DE / U+00E0..U+00FE (without the signs U+00D7 and U+00F7); cased
  without a partner in the range are U+00AA, U+00B5, U+00BA, U+00DF and U+00FF; the
  title case of U+00DF is the two letters \<open>Ss\<close>. The capitals of U+00B5 and U+00FF lie
  beyond U+00FF and cannot be written in the model, which leaves these two characters
  as they are; statements about title-cased text are made for ASCII input.
\<close>

definition ascii_upper :: string where
  "ascii_upper = ''ABCDEFGHIJKLMNOPQRSTUVWXYZ''"

definition ascii_lower :: string where
  "ascii_lower = ''abcdefghijklmnopqrstuvwxyz''"

definition latin1_upper :: string where
  "latin1_upper =
     [CHR 0xC0, CHR 0xC1, CHR 0xC2, CHR 0xC3, CHR 0xC4, CHR 0xC5, CHR 0xC6, CHR 0xC7,
      CHR 0xC8, CHR 0xC9, CHR 0xCA, CHR 0xCB, CHR 0xCC, CHR 0xCD, CHR 0xCE, CHR 0xCF,
      CHR 0xD0, CHR 0xD1, CHR 0xD2, CHR 0xD3, CHR 0xD4, CHR 0xD5, CHR 0xD6, CHR 0xD8,
      CHR 0xD9, CHR 0xDA, CHR 0xDB, CHR 0xDC, CHR 0xDD, CHR 0xDE]"

definition latin1_lower :: string where
  "latin1_lower =
     [CHR 0xE0, CHR 0xE1, CHR 0xE2, CHR 0xE3, CHR 0xE4, CHR 0xE5, CHR 0xE6, CHR 0xE7,
      CHR 0xE8, CHR 0xE9, CHR 0xEA, CHR 0xEB, CHR 0xEC, CHR 0xED, CHR 0xEE, CHR 0xEF,
      CHR 0xF0, CHR 0xF1, CHR 0xF2, CHR 0xF3, CHR 0xF4, CHR 0xF5, CHR 0xF6, CHR 0xF8,
      CHR 0xF9, CHR 0xFA, CHR 0xFB, CHR 0xFC, CHR 0xFD, CHR 0xFE]"

definition upper_letters :: string where
  "upper_letters = ascii_upper @ latin1_upper"

definition lower_letters :: string where
  "lower_letters = ascii_lower @ latin1_lower"

definition is_cased :: "char \<Rightarrow> bool" where
  "is_cased c =
     (c \<in> set upper_letters \<or> c \<in> set lower_letters
      \<or> c \<in> set [CHR 0xAA, CHR 0xB5, CHR 0xBA, CHR 0xDF, CHR 0xFF])"

definition to_lower :: "char \<Rightarrow> char" where
  "to_lower c = (case map_of (zip upper_letters lower_letters) c of Some l \<Rightarrow> l | None \<Rightarrow> c)"

definition to_upper :: "char \<Rightarrow> char" where
  "to_upper c = (case map_of (zip lower_letters upper_letters) c of Some u \<Rightarrow> u | None \<Rightarrow> c)"

definition to_title :: "char \<Rightarrow> string" where
  "to_title c = (if c = CHR 0xDF then ''Ss'' else [to_upper c])"

definition py_lower :: "string \<Rightarrow> string" where
  "py_lower s = map to_lower s"

text \<open>
  \<^verbatim>\<open>str.title()\<close>: one left-to-right pass carrying the flag "the previous character
  is cased"; a character after a cased one is lowercased, any other is title-cased.
\<close>

fun title_from :: "bool \<Rightarrow> string \<Rightarrow> string" where
  "title_from prev [] = []"
| "title_from prev (c # cs) =
     (if prev then [to_lower c] else to_title c) @ title_from (is_cased c) cs"

definition py_title :: "string \<Rightarrow> string" where
  "py_title s = title_from False s"

text \<open>ASCII characters, and the ASCII letters among them.\<close>

definition is_ascii :: "char \<Rightarrow> bool" where
  "is_ascii c = (\<not> digit7 c)"

definition ascii_letter :: "char \<Rightarrow> bool" where
  "ascii_letter c = (c \<in> set ascii_upper \<or> c \<in> set ascii_lower)"

text \<open>
  \<^verbatim>\<open>s.split(sep)\<close> for a one-character separator: the pieces between the separators,
  empty pieces kept, so the result always has one piece more than there are separators.
\<close>

fun py_split :: "char \<Rightarrow> string \<Rightarrow> string list" where
  "py_split d [] = [[]]"
| "py_split d (c # cs) =
     (if c = d then [] # py_split d cs
      else (case py_split d cs of [] \<Rightarrow> [[c]] | r # rs \<Rightarrow> (c # r) # rs))"

text \<open>
  \<^verbatim>\<open>s.replace(old, new)\<close>: scan from the left; where \<open>old\<close> starts, emit \<open>new\<close> and
  continue behind the occurrence, otherwise emit the character. For the empty \<open>old\<close>
  Python inserts \<open>new\<close> before every character and at the end.
\<close>

function replace_from :: "string \<Rightarrow> string \<Rightarrow> string \<Rightarrow> string" where
  "replace_from old new [] = []"
| "replace_from old new (c # cs) =
     (if old \<noteq> [] \<and> prefix old (c # cs)
      then new @ replace_from old new (drop (length old) (c # cs))
      else c # replace_from old new cs)"
  by pat_completeness auto
termination
  by (relation "measure (\<lambda>(old, new, t). length t)") (auto simp: neq_Nil_conv)

definition py_replace :: "string \<Rightarrow> string \<Rightarrow> string \<Rightarrow> string" where
  "py_replace old new t =
     (if old = [] then new @ concat (map (\<lambda>c. c # new) t) else replace_from old new t)"

text \<open>
  Reading a file opened in text mode gives its text with universal newlines: a carriage
  return, alone or followed by a line feed, arrives as one line feed.
\<close>

fun universal_newlines :: "string \<Rightarrow> string" where
  "universal_newlines [] = []"
| "universal_newlines [c] = [if c = CHR 0x0D then CHR 0x0A else c]"
| "universal_newlines (c # d # cs) =
     (if c = CHR 0x0D \<and> d = CHR 0x0A then CHR 0x0A # universal_newlines cs
      else if c = CHR 0x0D then CHR 0x0A # universal_newlines (d # cs)
      else c # universal_newlines (d # cs))"

section \<open>Errors\<close>

text \<open>
  Every exception the module raises or lets through is a value. The spec's error kinds
  are the source's classes: NotFoundError is \<^verbatim>\<open>FileNotFoundError\<close>,
  LibraryAlreadyExistsError is \<^verbatim>\<open>LibraryException\<close>, LibraryNotFoundError is
  \<^verbatim>\<open>LibraryNotFound\<close>, OperationAlreadyExistsError is \<^verbatim>\<open>OperationException\<close>.
  The argument is the exception's message.
\<close>

datatype error =
    FileNotFoundError string
  | LibraryException string
  | LibraryNotFound string
  | OperationException string
  | FileExistsError string
  | NotADirectoryError string
  | IsADirectoryError string
  | IndexError
  | KeyError string
  | ValueError string
  | Unmodelled string

section \<open>to\_camel\_case\<close>

text \<open>
  \<^verbatim>\<open>components = snake_str.split('_')\<close>, then
  \<^verbatim>\<open>components[0].title() + ''.join(x.title() for x in components[1:])\<close>.
  Indexing an empty list would raise \<^verbatim>\<open>IndexError\<close>; the model keeps that branch.
\<close>

definition to_camel_case :: "string \<Rightarrow> error + string" where
  "to_camel_case snake_str =
     (let components = py_split (CHR ''_'') snake_str in
      case components of
        [] \<Rightarrow> Inl IndexError
      | c0 # rest \<Rightarrow> Inr (py_title c0 @ concat (map py_title rest)))"

section \<open>The file system\<close>

text \<open>
  A file system is a tree: a regular file with its text, or a directory mapping names
  to entries. A \<open>path\<close> is the list of names from the root. There are no symbolic
  links, names are case-sensitive (POSIX), and a file's content is its text as it is
  stored (the platform's encoding can write every character of the model).
\<close>

type_synonym path = "string list"

datatype node = File string | Dir "string \<Rightarrow> node option"

fun lookup :: "node \<Rightarrow> path \<Rightarrow> node option" where
  "lookup n [] = Some n"
| "lookup (File t) (c # cs) = None"
| "lookup (Dir m) (c # cs) = (case m c of None \<Rightarrow> None | Some n \<Rightarrow> lookup n cs)"

definition is_dir_at :: "node \<Rightarrow> path \<Rightarrow> bool" where
  "is_dir_at r p = (case lookup r p of Some (Dir m) \<Rightarrow> True | _ \<Rightarrow> False)"

text \<open>
  \<open>put p v r\<close> is \<open>r\<close> with \<open>v\<close> as the entry at \<open>p\<close>; it changes nothing when the
  parent of \<open>p\<close> is not a directory of \<open>r\<close>. \<open>remove p r\<close> deletes the entry at \<open>p\<close>
  with everything below it (the root itself is never deleted).
\<close>

fun put :: "path \<Rightarrow> node \<Rightarrow> node \<Rightarrow> node" where
  "put [] v n = v"
| "put (c # cs) v (File t) = File t"
| "put [c] v (Dir m) = Dir (m(c \<mapsto> v))"
| "put (c # c' # cs) v (Dir m) =
     (case m c of None \<Rightarrow> Dir m | Some n \<Rightarrow> Dir (m(c \<mapsto> put (c' # cs) v n)))"

fun remove :: "path \<Rightarrow> node \<Rightarrow> node" where
  "remove [] n = n"
| "remove (c # cs) (File t) = File t"
| "remove [c] (Dir m) = Dir (m(c := None))"
| "remove (c # c' # cs) (Dir m) =
     (case m c of None \<Rightarrow> Dir m | Some n \<Rightarrow> Dir (m(c \<mapsto> remove (c' # cs) n)))"

definition empty_dir :: node where
  "empty_dir = Dir (\<lambda>c. None)"

text \<open>
  The state the module runs in: the tree, the working directory, the names
  \<^verbatim>\<open>tempfile.mkdtemp\<close> will try (its random name generator, as an oracle), the log of
  every \<^verbatim>\<open>f.write\<close> (path as given, text written) and the lines printed by
  \<^verbatim>\<open>cprint\<close>.
\<close>

record world =
  root :: node
  cwd :: path
  temps :: "string list"
  writes :: "(string \<times> string) list"
  console :: "string list"

type_synonym 'a io = "world \<Rightarrow> (error + 'a) \<times> world"

definition io_return :: "'a \<Rightarrow> 'a io" where
  "io_return x w = (Inr x, w)"

definition io_bind :: "'a io \<Rightarrow> ('a \<Rightarrow> 'b io) \<Rightarrow> 'b io" where
  "io_bind m k w = (case m w of (Inl e, w') \<Rightarrow> (Inl e, w') | (Inr x, w') \<Rightarrow> k x w')"

subsection \<open>Path strings\<close>

text \<open>
  \<^verbatim>\<open>posixpath.join(a, *p)\<close>: a component that starts with a slash replaces what was
  joined so far; otherwise it is appended, with a slash between unless the path so far
  is empty or already ends with one.
\<close>

definition starts_with_sep :: "string \<Rightarrow> bool" where
  "starts_with_sep b = (case b of [] \<Rightarrow> False | c # cs \<Rightarrow> c = CHR ''/'')"

definition ends_with_sep :: "string \<Rightarrow> bool" where
  "ends_with_sep a = (case rev a of [] \<Rightarrow> False | c # cs \<Rightarrow> c = CHR ''/'')"

definition join2 :: "string \<Rightarrow> string \<Rightarrow> string" where
  "join2 a b =
     (if starts_with_sep b then b
      else if a = [] \<or> ends_with_sep a then a @ b
      else a @ ''/'' @ b)"

definition path_join :: "string \<Rightarrow> string list \<Rightarrow> string" where
  "path_join a ps = foldl join2 a ps"

text \<open>\<^verbatim>\<open>os.getcwd()\<close>: the working directory as an absolute path string.\<close>

definition getcwd :: "world \<Rightarrow> string" where
  "getcwd w = (if cwd w = [] then ''/'' else concat (map (\<lambda>c. CHR ''/'' # c) (cwd w)))"

text \<open>
  Path resolution as the kernel does it: component by component from the root, every
  directory on the way must exist; an empty component and \<open>.\<close> stay, \<open>..\<close> goes to the
  parent. The last component itself need not exist. A relative path string is resolved
  from the working directory; the empty string names nothing, and neither does a path
  with a null character (Python refuses it before the system call).
\<close>

fun walk :: "node \<Rightarrow> path \<Rightarrow> string list \<Rightarrow> path option" where
  "walk r p [] = Some p"
| "walk r p (c # cs) =
     (if is_dir_at r p \<and> CHR 0x00 \<notin> set c then
        (if c = [] \<or> c = ''.'' then walk r p cs
         else if c = ''..'' then walk r (butlast p) cs
         else walk r (p @ [c]) cs)
      else None)"

definition components :: "world \<Rightarrow> string \<Rightarrow> string list" where
  "components w s = py_split (CHR ''/'') (join2 (getcwd w) s)"

definition resolve :: "world \<Rightarrow> string \<Rightarrow> path option" where
  "resolve w s = (if s = [] then None else walk (root w) [] (components w s))"

definition stat :: "world \<Rightarrow> string \<Rightarrow> node option" where
  "stat w s = (case resolve w s of None \<Rightarrow> None | Some p \<Rightarrow> lookup (root w) p)"

definition isdir :: "world \<Rightarrow> string \<Rightarrow> bool" where
  "isdir w s = (case stat w s of Some (Dir m) \<Rightarrow> True | _ \<Rightarrow> False)"

definition isfile :: "world \<Rightarrow> string \<Rightarrow> bool" where
  "isfile w s = (case stat w s of Some (File t) \<Rightarrow> True | _ \<Rightarrow> False)"

subsection \<open>Reading and writing a file\<close>

text \<open>
  \<^verbatim>\<open>with open(p, 'r') as f: f.read()\<close> and \<^verbatim>\<open>with open(p, 'w') as f: f.write(t)\<close>,
  both in text mode on a POSIX platform: reading translates the stored text to
  universal newlines, writing stores the text as given (a line feed is the platform's
  line separator). Writing creates the file when its directory exists, and is logged.
  A path that does not resolve is reported as \<^verbatim>\<open>FileNotFoundError\<close> whatever the
  platform's reason.
\<close>

definition read_text :: "world \<Rightarrow> string \<Rightarrow> error + string" where
  "read_text w p =
     (case stat w p of
        None \<Rightarrow> Inl (FileNotFoundError p)
      | Some (Dir m) \<Rightarrow> Inl (IsADirectoryError p)
      | Some (File t) \<Rightarrow> Inr (universal_newlines t))"

text \<open>The text stored in the regular file at a path, if there is one.\<close>

definition file_text :: "world \<Rightarrow> string \<Rightarrow> string option" where
  "file_text w p = (case stat w p of Some (File t) \<Rightarrow> Some t | _ \<Rightarrow> None)"

definition write_text :: "string \<Rightarrow> string \<Rightarrow> unit io" where
  "write_text p t w =
     (case resolve w p of
        None \<Rightarrow> (Inl (FileNotFoundError p), w)
      | Some q \<Rightarrow>
          (case lookup (root w) q of
             Some (Dir m) \<Rightarrow> (Inl (IsADirectoryError p), w)
           | _ \<Rightarrow> (Inr (), w\<lparr>root := put q (File t) (root w), writes := writes w @ [(p, t)]\<rparr>)))"

definition cprint :: "string \<Rightarrow> unit io" where
  "cprint s w = (Inr (), w\<lparr>console := console w @ [s]\<rparr>)"

subsection \<open>tempfile.mkdtemp, os.makedirs, shutil.copytree, shutil.rmtree\<close>

text \<open>
  \<^verbatim>\<open>mkdtemp\<close> tries candidate names until one does not exist yet, creates that
  directory and returns its path.
\<close>

fun mkdtemp_try :: "string list \<Rightarrow> string io" where
  "mkdtemp_try [] w =
     (Inl (FileExistsError ''No usable temporary directory name found''), w\<lparr>temps := []\<rparr>)"
| "mkdtemp_try (t # ts) w =
     (case resolve w t of
        None \<Rightarrow> (Inl (FileNotFoundError t), w\<lparr>temps := ts\<rparr>)
      | Some p \<Rightarrow>
          (if lookup (root w) p = None
           then (Inr t, w\<lparr>root := put p empty_dir (root w), temps := ts\<rparr>)
           else mkdtemp_try ts w))"

definition mkdtemp :: "string io" where
  "mkdtemp w = mkdtemp_try (temps w) w"

text \<open>
  \<^verbatim>\<open>os.makedirs(name)\<close>: walks like path resolution and creates every missing
  directory on the way. The flag says whether the entry reached last was created by
  this call; if it was not, the final \<^verbatim>\<open>mkdir\<close> finds the name taken and raises
  \<^verbatim>\<open>FileExistsError\<close>. Directories created before a failure stay.
\<close>

fun makedirs_walk :: "string \<Rightarrow> node \<Rightarrow> path \<Rightarrow> bool \<Rightarrow> string list \<Rightarrow> (error + path) \<times> node" where
  "makedirs_walk name r p new [] =
     (if new then (Inr p, r) else (Inl (FileExistsError name), r))"
| "makedirs_walk name r p new (c # cs) =
     (if CHR 0x00 \<in> set c then (Inl (ValueError ''embedded null byte''), r)
      else if is_dir_at r p then
        (if c = [] \<or> c = ''.'' then makedirs_walk name r p new cs
         else if c = ''..'' then makedirs_walk name r (butlast p) False cs
         else (case lookup r (p @ [c]) of
                 None \<Rightarrow> makedirs_walk name (put (p @ [c]) empty_dir r) (p @ [c]) True cs
               | Some n \<Rightarrow> makedirs_walk name r (p @ [c]) False cs))
      else (Inl (NotADirectoryError name), r))"

definition makedirs :: "string \<Rightarrow> path io" where
  "makedirs name w =
     (if name = [] then (Inl (FileNotFoundError name), w)
      else (case makedirs_walk name (root w) [] False (components w name) of
              (res, r') \<Rightarrow> (res, w\<lparr>root := r'\<rparr>)))"

text \<open>
  \<^verbatim>\<open>shutil.copytree(src, dst)\<close>: \<open>src\<close> must be a directory, \<open>dst\<close> must not exist
  (\<^verbatim>\<open>makedirs\<close> creates it and raises otherwise); then \<open>dst\<close> holds a copy of the tree
  at \<open>src\<close>. It returns \<open>dst\<close>. Copying a tree into itself is outside the model.
\<close>

definition copytree :: "string \<Rightarrow> string \<Rightarrow> string io" where
  "copytree src dst w =
     (case resolve w src of
        None \<Rightarrow> (Inl (FileNotFoundError src), w)
      | Some sp \<Rightarrow>
          (case lookup (root w) sp of
             None \<Rightarrow> (Inl (FileNotFoundError src), w)
           | Some (File t) \<Rightarrow> (Inl (NotADirectoryError src), w)
           | Some (Dir m) \<Rightarrow>
               (case makedirs dst w of
                  (Inl e, w') \<Rightarrow> (Inl e, w')
                | (Inr dp, w') \<Rightarrow>
                    (if prefix sp dp
                     then (Inl (Unmodelled ''copytree into itself''), w')
                     else (Inr dst, w'\<lparr>root := put dp (Dir m) (root w')\<rparr>)))))"

text \<open>\<^verbatim>\<open>shutil.rmtree(p)\<close>: \<open>p\<close> must be a directory; it goes with all it holds.\<close>

definition rmtree :: "string \<Rightarrow> unit io" where
  "rmtree p w =
     (case resolve w p of
        None \<Rightarrow> (Inl (FileNotFoundError p), w)
      | Some q \<Rightarrow>
          (case lookup (root w) q of
             None \<Rightarrow> (Inl (FileNotFoundError p), w)
           | Some (File t) \<Rightarrow> (Inl (NotADirectoryError p), w)
           | Some (Dir m) \<Rightarrow>
               (if q = [] then (Inl (Unmodelled ''rmtree of the root''), w)
                else (Inr (), w\<lparr>root := remove q (root w)\<rparr>))))"

subsection \<open>Paths that can be created\<close>

text \<open>
  For stating when \<^verbatim>\<open>os.makedirs\<close> succeeds: the path string \<open>s\<close> leads through
  existing directories to the directory \<open>bp\<close> and from there through the components
  \<open>ns\<close>, of which the first is a name that does not exist in \<open>bp\<close> and none is \<open>..\<close> or
  holds a null character. \<open>entry_names\<close> are the components that name an entry, and
  \<open>nest ns v\<close> is \<open>v\<close> inside a chain of otherwise empty directories named \<open>ns\<close>.
\<close>

definition creatable :: "world \<Rightarrow> string \<Rightarrow> path \<Rightarrow> string list \<Rightarrow> bool" where
  "creatable w s bp ns =
     (s \<noteq> []
      \<and> drop (length (components w s) - length ns) (components w s) = ns
      \<and> walk (root w) [] (take (length (components w s) - length ns) (components w s)) = Some bp
      \<and> is_dir_at (root w) bp
      \<and> (case ns of [] \<Rightarrow> False
          | n # rest \<Rightarrow> n \<noteq> [] \<and> n \<noteq> ''.'' \<and> lookup (root w) (bp @ [n]) = None)
      \<and> list_all (\<lambda>c. c \<noteq> ''..'' \<and> CHR 0x00 \<notin> set c) ns)"

definition entry_names :: "string list \<Rightarrow> string list" where
  "entry_names ns = filter (\<lambda>c. c \<noteq> [] \<and> c \<noteq> ''.'') ns"

fun nest :: "string list \<Rightarrow> node \<Rightarrow> node" where
  "nest [] v = v"
| "nest (n # ns) v = Dir ((\<lambda>c. None)(n \<mapsto> nest ns v))"

section \<open>The scaffolder\<close>

text \<open>
  The five functions of the module, in the order of the source. A dictionary is an
  association list in insertion order; \<^verbatim>\<open>for key in placeholders\<close> runs over its keys
  and \<^verbatim>\<open>placeholders[key]\<close> looks the key up.
\<close>

fun replace_loop :: "string \<Rightarrow> (string \<times> string) list \<Rightarrow> string list \<Rightarrow> unit io" where
  "replace_loop file_path placeholders [] w = (Inr (), w)"
| "replace_loop file_path placeholders (key # keys) w =
     (case read_text w file_path of
        Inl e \<Rightarrow> (Inl e, w)
      | Inr text \<Rightarrow>
          (case map_of placeholders key of
             None \<Rightarrow> (Inl (KeyError key), w)
           | Some v \<Rightarrow>
               (case write_text file_path (py_replace key v text) w of
                  (Inl e, w') \<Rightarrow> (Inl e, w')
                | (Inr u, w') \<Rightarrow> replace_loop file_path placeholders keys w')))"

definition replace_placeholders_in_file :: "string \<Rightarrow> (string \<times> string) list \<Rightarrow> unit io" where
  "replace_placeholders_in_file file_path placeholders w =
     (if \<not> isfile w file_path
      then (Inl (FileNotFoundError (file_path @ '' does not exist'')), w)
      else replace_loop file_path placeholders (map fst placeholders) w)"

text \<open>
  For stating what the loop writes: the text after each substitution pass, in order,
  when the file holds \<open>t\<close> at the start and the markers are taken in dictionary order.
  Each pass works on the text as read, that is with universal newlines.
\<close>

fun pass_texts :: "string \<Rightarrow> (string \<times> string) list \<Rightarrow> string list" where
  "pass_texts t [] = []"
| "pass_texts t ((k, v) # kvs) =
     py_replace k v (universal_newlines t)
       # pass_texts (py_replace k v (universal_newlines t)) kvs"

definition library_exists :: "world \<Rightarrow> string \<Rightarrow> string \<Rightarrow> error + bool" where
  "library_exists w name operations_dir =
     (if \<not> isdir w operations_dir
      then Inl (FileNotFoundError (operations_dir @ '' does not exist.''))
      else (let library_path = path_join (getcwd w) [operations_dir, name]
            in Inr (isdir w library_path)))"

definition operation_exists :: "world \<Rightarrow> string \<Rightarrow> string \<Rightarrow> string \<Rightarrow> error + bool" where
  "operation_exists w operations_dir library_name operation_name =
     (if \<not> isdir w operations_dir then Inl (FileNotFoundError operations_dir)
      else (case library_exists w library_name operations_dir of
              Inl e \<Rightarrow> Inl e
            | Inr found \<Rightarrow>
                (if \<not> found
                 then Inl (LibraryNotFound (path_join operations_dir [library_name]))
                 else Inr (isfile w
                        (path_join operations_dir [library_name, operation_name, ''__init__.py'']))))
     )"

definition make_library_template :: string where
  "make_library_template =
     path_join ''operations'' [''base'', ''utils'', ''templates'', ''make_library'']"

definition make_operation_template :: string where
  "make_operation_template =
     path_join ''operations'' [''base'', ''utils'', ''templates'', ''make_operation'']"

definition library_create :: "string \<Rightarrow> string \<Rightarrow> string io" where
  "library_create library_name out_dir w =
     (case library_exists w library_name out_dir of
        Inl e \<Rightarrow> (Inl e, w)
      | Inr found \<Rightarrow>
          (if found
           then (Inl (LibraryException
                   (''The library '' @ library_name @ '' already exists under '' @ out_dir)), w)
           else if \<not> isdir w out_dir
           then (Inl (FileNotFoundError (out_dir @ '' does not exist'')), w)
           else
             (let library_new_path = path_join out_dir [py_lower library_name];
                  library_new_init = path_join library_new_path [''__init__.py'']
              in io_bind mkdtemp (\<lambda>t.
                   let tmp_dir = path_join t [''tmp''];
                       tmp_init = path_join tmp_dir [''__init__.py'']
                   in io_bind (copytree make_library_template tmp_dir) (\<lambda>_.
                      io_bind (replace_placeholders_in_file tmp_init
                                 [(''LIBRARYNAME'', py_lower library_name)]) (\<lambda>_.
                      io_bind (copytree tmp_dir library_new_path) (\<lambda>_.
                      io_bind (rmtree tmp_dir) (\<lambda>_.
                      io_bind (cprint
                                 (''Library successfully created under: '' @ library_new_init)) (\<lambda>_.
                      io_return library_new_path)))))) w)))"

definition operation_create :: "string \<Rightarrow> string \<Rightarrow> string \<Rightarrow> string io" where
  "operation_create operations_dir library_name operation_name w =
     (case library_exists w library_name operations_dir of
        Inl e \<Rightarrow> (Inl e, w)
      | Inr found \<Rightarrow>
          io_bind (if \<not> found
                   then io_bind (library_create library_name operations_dir) (\<lambda>_. io_return ())
                   else io_return ()) (\<lambda>_ w1.
            (case operation_exists w1 operations_dir library_name operation_name of
               Inl e \<Rightarrow> (Inl e, w1)
             | Inr present \<Rightarrow>
                 (if present
                  then (Inl (OperationException
                          (path_join operations_dir [library_name, operation_name]
                             @ '' already exists.'')), w1)
                  else
                    (let operation_new_path =
                           path_join operations_dir [library_name, operation_name];
                         operation_new_init = path_join operation_new_path [''__init__.py'']
                     in io_bind mkdtemp (\<lambda>t.
                          let tmp_dir = path_join t [''tmp''];
                              tmp_init = path_join tmp_dir [''__init__.py'']
                          in io_bind (copytree make_operation_template tmp_dir) (\<lambda>_.
                             case to_camel_case operation_name of
                               Inl e \<Rightarrow> (\<lambda>w2. (Inl e, w2))
                             | Inr camel \<Rightarrow>
                             io_bind (replace_placeholders_in_file tmp_init
                                        [(''NEWOPERATION'', camel)]) (\<lambda>_.
                             io_bind (copytree tmp_dir operation_new_path) (\<lambda>_.
                             io_bind (rmtree tmp_dir) (\<lambda>_.
                             io_bind (cprint
                                        (''Operation successfully created under: ''
                                           @ operation_new_init)) (\<lambda>_.
                             io_return operation_new_path)))))) w1)))) w)"

section \<open>A concrete file system\<close>

text \<open>
  A checkout at \<open>/repo\<close> (the working directory) holding the two templates and an
  empty operations directory \<open>ops\<close>, and an empty \<open>/tmp\<close> in which \<^verbatim>\<open>mkdtemp\<close> will
  create \<open>/tmp/tmpa1\<close> and then \<open>/tmp/tmpb2\<close>.
\<close>

definition dir_of :: "(string \<times> node) list \<Rightarrow> node" where
  "dir_of entries = Dir (map_of entries)"

definition demo_templates :: node where
  "demo_templates =
     dir_of [(''base'', dir_of [(''utils'', dir_of [(''templates'', dir_of
       [(''make_library'', dir_of [(''__init__.py'', File ''lib = LIBRARYNAME'')]),
        (''make_operation'', dir_of [(''__init__.py'', File ''class NEWOPERATION'')])])])])]"

definition demo_root :: "(string \<times> node) list \<Rightarrow> node" where
  "demo_root ops_entries =
     dir_of [(''tmp'', dir_of []),
             (''repo'', dir_of [(''operations'', demo_templates),
                                (''ops'', dir_of ops_entries)])]"

definition demo_world :: "(string \<times> node) list \<Rightarrow> world" where
  "demo_world ops_entries =
     \<lparr>root = demo_root ops_entries, cwd = [''repo''],
      temps = [''/tmp/tmpa1'', ''/tmp/tmpb2''], writes = [], console = []\<rparr>"

section \<open>Properties of the string operations\<close>

lemma py_split_nonempty: "py_split d s \<noteq> []"
  by (induction s) (auto split: list.splits)

lemma py_split_no_sep: "d \<notin> set s \<Longrightarrow> py_split d s = [s]"
  by (induction s) auto

lemma py_split_subset: "seg \<in> set (py_split d s) \<Longrightarrow> set seg \<subseteq> set s"
proof (induction s arbitrary: seg)
  case Nil
  then show ?case by simp
next
  case (Cons c s)
  obtain r rs where r: "py_split d s = r # rs"
    using py_split_nonempty [of d s] by (cases "py_split d s") auto
  have "set r \<subseteq> set s" and "\<And>x. x \<in> set rs \<Longrightarrow> set x \<subseteq> set s"
    using Cons.IH r by simp_all
  with Cons.prems r show ?case
    by (auto split: if_splits)
qed

lemma latin1_not_ascii:
  "c \<in> set latin1_upper \<or> c \<in> set latin1_lower
     \<or> c \<in> set [CHR 0xAA, CHR 0xB5, CHR 0xBA, CHR 0xDF, CHR 0xFF] \<Longrightarrow> \<not> is_ascii c"
  by (auto simp: latin1_upper_def latin1_lower_def is_ascii_def)

lemma is_cased_ascii: "is_ascii c \<Longrightarrow> is_cased c = ascii_letter c"
  using latin1_not_ascii [of c]
  by (auto simp: is_cased_def ascii_letter_def upper_letters_def lower_letters_def)

lemma to_title_ascii: "is_ascii c \<Longrightarrow> to_title c = [to_upper c]"
  using latin1_not_ascii [of c] by (auto simp: to_title_def)

lemma length_title_from:
  "list_all is_ascii s \<Longrightarrow> length (title_from prev s) = length s"
  by (induction s arbitrary: prev) (auto simp: to_title_ascii)

lemma title_from_nth:
  "list_all is_ascii s \<Longrightarrow> i < length s \<Longrightarrow>
   title_from prev s ! i =
     (if (if i = 0 then prev else ascii_letter (s ! (i - 1))) then to_lower (s ! i)
      else to_upper (s ! i))"
proof (induction s arbitrary: prev i)
  case Nil
  then show ?case by simp
next
  case (Cons c cs)
  from Cons.prems(1) have c: "is_ascii c" and cs: "list_all is_ascii cs" by simp_all
  show ?case
  proof (cases i)
    case 0
    then show ?thesis by (simp add: to_title_ascii [OF c])
  next
    case (Suc j)
    with Cons.prems have j: "j < length cs" by simp
    have hd: "title_from prev (c # cs) ! i = title_from (is_cased c) cs ! j"
      using Suc by (simp add: to_title_ascii [OF c])
    show ?thesis
      unfolding hd using Cons.IH [OF cs j, of "is_cased c"] Suc is_cased_ascii [OF c]
      by (cases j) auto
  qed
qed

text \<open>
  C6. \<open>to_camel_case\<close> never fails: on every input it returns the title-cased pieces
  of the split at underscores, concatenated with nothing between them. Empty pieces
  (leading, trailing or doubled underscores) add nothing. The spec's three examples,
  and one with empty pieces.
\<close>

theorem to_camel_case_total:
  "to_camel_case s = Inr (concat (map py_title (py_split (CHR ''_'') s)))
   \<and> to_camel_case ''make_http_request'' = Inr ''MakeHttpRequest''
   \<and> to_camel_case ''a'' = Inr ''A''
   \<and> to_camel_case [] = Inr []
   \<and> to_camel_case ''_a__b_'' = Inr ''AB''"
proof -
  have general: "to_camel_case s = Inr (concat (map py_title (py_split (CHR ''_'') s)))"
    using py_split_nonempty [of "CHR ''_''" s]
    by (cases "py_split (CHR ''_'') s") (simp_all add: to_camel_case_def)
  have e1: "to_camel_case ''make_http_request'' = Inr ''MakeHttpRequest''" by code_simp
  have e2: "to_camel_case ''a'' = Inr ''A''" by code_simp
  have e3: "to_camel_case [] = Inr []" by code_simp
  have e4: "to_camel_case ''_a__b_'' = Inr ''AB''" by code_simp
  from general e1 e2 e3 e4 show ?thesis by blast
qed

text \<open>
  C10, as amended: for ASCII input. Title-casing normalises the case inside every
  piece between underscores: the title-cased piece has the length of the piece, its
  first character and every character that follows a non-letter (a digit, say) is the
  uppercased one, and every character that follows a letter is the lowercased one. So
  \<open>a2b\<close> becomes \<open>A2B\<close> and \<open>API_key\<close> becomes \<open>ApiKey\<close>.
\<close>

theorem to_camel_case_title_cases:
  assumes "list_all is_ascii s" and "seg \<in> set (py_split (CHR ''_'') s)"
    and "i < length seg"
  shows "to_camel_case s = Inr (concat (map py_title (py_split (CHR ''_'') s)))
         \<and> length (py_title seg) = length seg
         \<and> py_title seg ! i =
             (if 0 < i \<and> ascii_letter (seg ! (i - 1)) then to_lower (seg ! i)
              else to_upper (seg ! i))
         \<and> to_camel_case ''a2b'' = Inr ''A2B''
         \<and> to_camel_case ''API_key'' = Inr ''ApiKey''"
proof -
  have seg: "list_all is_ascii seg"
    using assms(1) py_split_subset [OF assms(2)] by (auto simp: list_all_iff)
  have general: "to_camel_case s = Inr (concat (map py_title (py_split (CHR ''_'') s)))"
    using py_split_nonempty [of "CHR ''_''" s]
    by (cases "py_split (CHR ''_'') s") (simp_all add: to_camel_case_def)
  have len: "length (py_title seg) = length seg"
    using seg by (simp add: py_title_def length_title_from)
  have nth: "py_title seg ! i =
      (if 0 < i \<and> ascii_letter (seg ! (i - 1)) then to_lower (seg ! i) else to_upper (seg ! i))"
    using title_from_nth [OF seg assms(3), of False] by (auto simp: py_title_def)
  have e1: "to_camel_case ''a2b'' = Inr ''A2B''" by code_simp
  have e2: "to_camel_case ''API_key'' = Inr ''ApiKey''" by code_simp
  show ?thesis by (intro conjI general len nth e1 e2)
qed

theorem to_camel_case_title_cases_witness:
  "list_all is_ascii ''x_a2b'' \<and> ''a2b'' \<in> set (py_split (CHR ''_'') ''x_a2b'')
   \<and> (2::nat) < length ''a2b''
   \<and> to_camel_case ''x_a2b'' = Inr ''XA2B''
   \<and> length (py_title ''a2b'') = 3 \<and> py_title ''a2b'' ! 2 = CHR ''B''"
proof -
  have h1: "list_all is_ascii ''x_a2b''" by (simp add: is_ascii_def)
  have h2: "''a2b'' \<in> set (py_split (CHR ''_'') ''x_a2b'')" by simp
  have h3: "(2::nat) < length ''a2b''" by simp
  have l: "to_upper (CHR ''b'') = CHR ''B'' \<and> \<not> ascii_letter (CHR ''2'')
           \<and> concat (map py_title (py_split (CHR ''_'') ''x_a2b'')) = ''XA2B''"
    by code_simp
  from to_camel_case_title_cases [OF h1 h2 h3] l h1 h2 show ?thesis by simp
qed

text \<open>
  C10 as stated fails outside ASCII: in \<open>2\<close> followed by the letter U+00DF (sharp s),
  the letter follows a non-letter, and the result holds its title case \<open>Ss\<close>, whose
  second letter is lowercase, where uppercasing would give \<open>SS\<close>.
\<close>

theorem to_camel_case_sharp_s:
  "is_cased (CHR 0xDF) \<and> \<not> is_cased (CHR ''2'')
   \<and> to_camel_case [CHR ''2'', CHR 0xDF] = Inr ''2Ss''"
  by code_simp

section \<open>Properties of the file system model\<close>

lemma lookup_append:
  "lookup r (p @ q) = (case lookup r p of None \<Rightarrow> None | Some n \<Rightarrow> lookup n q)"
proof (induction p arbitrary: r)
  case Nil
  show ?case by simp
next
  case (Cons c cs)
  show ?case by (cases r) (auto simp: Cons.IH split: option.splits)
qed

lemma lookup_None_append: "lookup r p = None \<Longrightarrow> lookup r (p @ q) = None"
  by (simp add: lookup_append)

lemma lookup_File_append: "lookup r p = Some (File t) \<Longrightarrow> q \<noteq> [] \<Longrightarrow> lookup r (p @ q) = None"
  by (cases q) (simp_all add: lookup_append)

lemma lookup_Some_prefix_dir:
  "lookup r (p @ q) \<noteq> None \<Longrightarrow> q \<noteq> [] \<Longrightarrow> is_dir_at r p"
  by (cases q; cases "lookup r p"; cases "the (lookup r p)")
     (auto simp: lookup_append is_dir_at_def)

lemma lookup_put_below:
  "p = [] \<or> is_dir_at r (butlast p) \<Longrightarrow> lookup (put p v r) (p @ q) = lookup v q"
proof (induction p v r rule: put.induct)
  case (1 v n)
  show ?case by simp
next
  case (2 c cs v t)
  then show ?case by (cases cs) (auto simp: is_dir_at_def)
next
  case (3 c v m)
  show ?case by simp
next
  case (4 c c' cs v m)
  then show ?case by (auto simp: is_dir_at_def split: option.splits)
qed

lemma lookup_put_same:
  "p = [] \<or> is_dir_at r (butlast p) \<Longrightarrow> lookup (put p v r) p = Some v"
  using lookup_put_below [of p r v "[]"] by simp

lemma lookup_put_disjoint:
  "\<not> prefix p q \<Longrightarrow> \<not> prefix q p \<Longrightarrow> lookup (put p v r) q = lookup r q"
proof (induction p v r arbitrary: q rule: put.induct)
  case (1 v n)
  then show ?case by simp
next
  case (2 c cs v t)
  show ?case by simp
next
  case (3 c v m)
  then show ?case by (cases q) auto
next
  case (4 c c' cs v m)
  then show ?case by (cases q) (auto split: option.splits)
qed

lemma is_dir_put_other:
  "\<not> prefix p q \<Longrightarrow> is_dir_at (put p v r) q = is_dir_at r q"
proof (induction p v r arbitrary: q rule: put.induct)
  case (1 v n)
  then show ?case by simp
next
  case (2 c cs v t)
  show ?case by simp
next
  case (3 c v m)
  then show ?case by (cases q) (auto simp: is_dir_at_def)
next
  case (4 c c' cs v m)
  show ?case
  proof (cases q)
    case Nil
    then show ?thesis by (auto simp: is_dir_at_def split: option.splits)
  next
    case (Cons d ds)
    show ?thesis
    proof (cases "m c")
      case None
      then show ?thesis by simp
    next
      case (Some n)
      show ?thesis
      proof (cases "d = c")
        case True
        with "4.prems" Cons have "\<not> prefix (c' # cs) ds" by simp
        from "4.IH" [OF Some this] show ?thesis
          using Some Cons True by (simp add: is_dir_at_def)
      next
        case False
        then show ?thesis using Some Cons by (simp add: is_dir_at_def)
      qed
    qed
  qed
qed

lemma lookup_None_put_other:
  "\<not> prefix p q \<Longrightarrow> (lookup (put p v r) q = None) = (lookup r q = None)"
proof (induction p v r arbitrary: q rule: put.induct)
  case (1 v n)
  then show ?case by simp
next
  case (2 c cs v t)
  show ?case by simp
next
  case (3 c v m)
  then show ?case by (cases q) auto
next
  case (4 c c' cs v m)
  show ?case
  proof (cases q)
    case Nil
    then show ?thesis by (auto split: option.splits)
  next
    case (Cons d ds)
    show ?thesis
    proof (cases "m c")
      case None
      then show ?thesis by simp
    next
      case (Some n)
      show ?thesis
      proof (cases "d = c")
        case True
        with "4.prems" Cons have "\<not> prefix (c' # cs) ds" by simp
        from "4.IH" [OF Some this] show ?thesis
          using Some Cons True by simp
      next
        case False
        then show ?thesis using Some Cons by simp
      qed
    qed
  qed
qed

lemma is_dir_remove_other:
  "\<not> prefix p q \<Longrightarrow> is_dir_at (remove p r) q = is_dir_at r q"
proof (induction p r arbitrary: q rule: remove.induct)
  case (1 n)
  then show ?case by simp
next
  case (2 c cs t)
  show ?case by simp
next
  case (3 c m)
  then show ?case by (cases q) (auto simp: is_dir_at_def)
next
  case (4 c c' cs m)
  show ?case
  proof (cases q)
    case Nil
    then show ?thesis by (auto simp: is_dir_at_def split: option.splits)
  next
    case (Cons d ds)
    show ?thesis
    proof (cases "m c")
      case None
      then show ?thesis by simp
    next
      case (Some n)
      show ?thesis
      proof (cases "d = c")
        case True
        with "4.prems" Cons have "\<not> prefix (c' # cs) ds" by simp
        from "4.IH" [OF Some this] show ?thesis
          using Some Cons True by (simp add: is_dir_at_def)
      next
        case False
        then show ?thesis using Some Cons by (simp add: is_dir_at_def)
      qed
    qed
  qed
qed

lemma lookup_remove_disjoint:
  "\<not> prefix p q \<Longrightarrow> \<not> prefix q p \<Longrightarrow> lookup (remove p r) q = lookup r q"
proof (induction p r arbitrary: q rule: remove.induct)
  case (1 n)
  then show ?case by simp
next
  case (2 c cs t)
  show ?case by simp
next
  case (3 c m)
  then show ?case by (cases q) auto
next
  case (4 c c' cs m)
  then show ?case by (cases q) (auto split: option.splits)
qed

lemma lookup_remove_below:
  "p \<noteq> [] \<Longrightarrow> lookup (remove p r) (p @ q) = None"
proof (induction p r rule: remove.induct)
  case (1 n)
  then show ?case by simp
next
  case (2 c cs t)
  show ?case by simp
next
  case (3 c m)
  show ?case by simp
next
  case (4 c c' cs m)
  then show ?case by (auto split: option.splits)
qed

lemma put_put: "put p v (put p u r) = put p v r"
  by (induction p u r rule: put.induct) (auto split: option.splits)

subsection \<open>Path strings and the working directory\<close>

lemma starts_with_sep_getcwd: "starts_with_sep (getcwd w)"
  by (cases "cwd w") (auto simp: getcwd_def starts_with_sep_def)

lemma join2_abs_right: "starts_with_sep b \<Longrightarrow> join2 a b = b"
  by (simp add: join2_def)

lemma starts_with_sep_join2: "starts_with_sep a \<Longrightarrow> starts_with_sep (join2 a b)"
  by (cases a) (auto simp: join2_def starts_with_sep_def)

lemma starts_with_sep_simps [simp]:
  "starts_with_sep [] = False" "starts_with_sep (c # cs) = (c = CHR ''/'')"
  by (simp_all add: starts_with_sep_def)

lemma ends_with_sep_Nil [simp]: "ends_with_sep [] = False"
  by (simp add: ends_with_sep_def)

lemma ends_with_sep_append:
  "ends_with_sep (a @ b) = (if b = [] then ends_with_sep a else ends_with_sep b)"
  by (cases "rev b") (auto simp: ends_with_sep_def)

lemma ends_with_sep_Cons [simp]:
  "ends_with_sep (c # cs) = (if cs = [] then c = CHR ''/'' else ends_with_sep cs)"
  using ends_with_sep_append [of "[c]" cs] by (simp add: ends_with_sep_def)

lemma starts_with_sep_append:
  "starts_with_sep (a @ b) = (if a = [] then starts_with_sep b else starts_with_sep a)"
  by (cases a) auto

lemma join2_assoc: "join2 (join2 a b) c = join2 a (join2 b c)"
  by (simp add: join2_def ends_with_sep_append starts_with_sep_append)

lemma join2_nonempty: "a \<noteq> [] \<Longrightarrow> join2 a b \<noteq> []"
  by (auto simp: join2_def starts_with_sep_def split: list.splits)

lemma components_getcwd_join:
  "components w (path_join (getcwd w) [d, n]) = components w (path_join d [n])"
proof -
  have "starts_with_sep (join2 (join2 (getcwd w) d) n)"
    by (intro starts_with_sep_join2 starts_with_sep_getcwd)
  then have "join2 (getcwd w) (join2 (join2 (getcwd w) d) n) = join2 (join2 (getcwd w) d) n"
    by (rule join2_abs_right)
  then show ?thesis
    by (simp add: components_def path_join_def join2_assoc)
qed

lemma isdir_nonempty: "isdir w s \<Longrightarrow> s \<noteq> []"
  by (auto simp: isdir_def stat_def resolve_def)

lemma getcwd_nonempty: "getcwd w \<noteq> []"
  using starts_with_sep_getcwd [of w] by (auto simp: starts_with_sep_def)

lemma isdir_getcwd_join:
  assumes "d \<noteq> []"
  shows "isdir w (path_join (getcwd w) [d, n]) = isdir w (path_join d [n])"
proof -
  have "path_join (getcwd w) [d, n] \<noteq> []"
    by (simp add: path_join_def join2_nonempty getcwd_nonempty)
  moreover have "path_join d [n] \<noteq> []"
    using assms by (simp add: path_join_def join2_nonempty)
  ultimately show ?thesis
    using components_getcwd_join [of w d n]
    by (simp add: isdir_def stat_def resolve_def)
qed

section \<open>The existence checks and the early exits\<close>

text \<open>
  C4. When \<open>library_exists\<close> finds the library, \<open>library_create\<close> raises
  \<^verbatim>\<open>LibraryException\<close> (the spec's LibraryAlreadyExistsError) and the state it
  returns is the state it was given: no entry of the tree, no log and no temporary
  name has changed.
\<close>

theorem library_create_existing_raises:
  assumes "library_exists w library_name out_dir = Inr True"
  shows "library_create library_name out_dir w =
           (Inl (LibraryException
              (''The library '' @ library_name @ '' already exists under '' @ out_dir)), w)"
  using assms by (simp add: library_create_def)

theorem library_create_existing_raises_witness:
  "library_exists (demo_world [(''mylib'', dir_of [])]) ''mylib'' ''ops'' = Inr True
   \<and> library_create ''mylib'' ''ops'' (demo_world [(''mylib'', dir_of [])]) =
       (Inl (LibraryException ''The library mylib already exists under ops''),
        demo_world [(''mylib'', dir_of [])])"
proof -
  have h: "library_exists (demo_world [(''mylib'', dir_of [])]) ''mylib'' ''ops'' = Inr True"
    by code_simp
  from library_create_existing_raises [OF h] h show ?thesis by simp
qed

text \<open>
  C7. When the root directory argument is not an existing directory, both existence
  checks raise \<^verbatim>\<open>FileNotFoundError\<close> (the spec's NotFoundError); neither returns
  \<open>False\<close>.
\<close>

theorem existence_checks_missing_root:
  assumes "\<not> isdir w operations_dir"
  shows "library_exists w name operations_dir =
           Inl (FileNotFoundError (operations_dir @ '' does not exist.''))
         \<and> operation_exists w operations_dir library_name operation_name =
           Inl (FileNotFoundError operations_dir)"
  using assms by (simp add: library_exists_def operation_exists_def)

theorem existence_checks_missing_root_witness:
  "\<not> isdir (demo_world []) ''nope''
   \<and> library_exists (demo_world []) ''mylib'' ''nope'' =
       Inl (FileNotFoundError ''nope does not exist.'')
   \<and> operation_exists (demo_world []) ''nope'' ''mylib'' ''do_thing'' =
       Inl (FileNotFoundError ''nope'')"
proof -
  have h: "\<not> isdir (demo_world []) ''nope''" by code_simp
  from existence_checks_missing_root [OF h, of "''mylib''" "''mylib''" "''do_thing''"] h
  show ?thesis by simp
qed

text \<open>
  C8. Under an existing \<open>operations_dir\<close>, \<open>operation_exists\<close> raises
  \<^verbatim>\<open>LibraryNotFound\<close> when \<open>operations_dir/library_name\<close> is not a directory, and
  otherwise returns whether \<open>operations_dir/library_name/operation_name/__init__.py\<close>
  is a regular file. (The source tests the library through
  \<^verbatim>\<open>os.path.join(os.getcwd(), operations_dir, name)\<close>; that names the same entry.)
\<close>

theorem operation_exists_result:
  assumes "isdir w operations_dir"
  shows "operation_exists w operations_dir library_name operation_name =
           (if isdir w (path_join operations_dir [library_name])
            then Inr (isfile w
                   (path_join operations_dir [library_name, operation_name, ''__init__.py'']))
            else Inl (LibraryNotFound (path_join operations_dir [library_name])))"
  using assms isdir_getcwd_join [OF isdir_nonempty [OF assms], of w library_name]
  by (simp add: operation_exists_def library_exists_def)

theorem operation_exists_result_witness:
  "isdir (demo_world [(''mylib'', dir_of [(''do_thing'', dir_of [(''__init__.py'', File ''x'')])])]) ''ops''
   \<and> operation_exists
        (demo_world [(''mylib'', dir_of [(''do_thing'', dir_of [(''__init__.py'', File ''x'')])])])
        ''ops'' ''mylib'' ''do_thing'' = Inr True
   \<and> operation_exists
        (demo_world [(''mylib'', dir_of [(''do_thing'', dir_of [(''__init__.py'', File ''x'')])])])
        ''ops'' ''mylib'' ''other'' = Inr False
   \<and> operation_exists
        (demo_world [(''mylib'', dir_of [(''do_thing'', dir_of [(''__init__.py'', File ''x'')])])])
        ''ops'' ''nolib'' ''do_thing'' = Inl (LibraryNotFound ''ops/nolib'')"
proof -
  let ?w = "demo_world [(''mylib'', dir_of [(''do_thing'', dir_of [(''__init__.py'', File ''x'')])])]"
  have h: "isdir ?w ''ops''" by code_simp
  have a: "isdir ?w (path_join ''ops'' [''mylib''])" by code_simp
  have b: "isfile ?w (path_join ''ops'' [''mylib'', ''do_thing'', ''__init__.py''])" by code_simp
  have c: "\<not> isfile ?w (path_join ''ops'' [''mylib'', ''other'', ''__init__.py''])" by code_simp
  have d: "\<not> isdir ?w (path_join ''ops'' [''nolib''])" by code_simp
  have e: "path_join ''ops'' [''nolib''] = ''ops/nolib''" by code_simp
  from operation_exists_result [OF h, of "''mylib''" "''do_thing''"]
       operation_exists_result [OF h, of "''mylib''" "''other''"]
       operation_exists_result [OF h, of "''nolib''" "''do_thing''"]
       h a b c d e
  show ?thesis by simp
qed

text \<open>
  C9. With the empty dictionary, \<open>replace_placeholders_in_file\<close> still raises
  \<^verbatim>\<open>FileNotFoundError\<close> when the path is not a regular file; when it is, the loop
  body never runs and the state is returned as it was: the tree and the write log are
  unchanged.
\<close>

theorem replace_placeholders_empty:
  "replace_placeholders_in_file file_path [] w =
     (if isfile w file_path then (Inr (), w)
      else (Inl (FileNotFoundError (file_path @ '' does not exist'')), w))"
  by (simp add: replace_placeholders_in_file_def)

text \<open>
  C1, at the name \<open>MyLib\<close>: \<open>ops\<close> is an existing directory without a library
  \<open>MyLib\<close>; \<open>library_create\<close> succeeds and returns \<open>ops/mylib\<close>, and afterwards
  \<open>library_exists\<close> for the same name \<open>MyLib\<close> still answers \<open>False\<close>: the check
  looks for the name as given, the directory was made under the lowercased name.
\<close>

theorem library_create_mixed_case_not_found:
  "isdir (demo_world []) ''ops''
   \<and> library_exists (demo_world []) ''MyLib'' ''ops'' = Inr False
   \<and> fst (library_create ''MyLib'' ''ops'' (demo_world [])) = Inr ''ops/mylib''
   \<and> library_exists (snd (library_create ''MyLib'' ''ops'' (demo_world []))) ''MyLib'' ''ops''
       = Inr False
   \<and> library_exists (snd (library_create ''MyLib'' ''ops'' (demo_world []))) ''mylib'' ''ops''
       = Inr True"
  by code_simp

text \<open>
  C2, at the library name \<open>MyLib\<close>: \<open>operation_create\<close> creates the library as
  \<open>ops/mylib\<close>, then its own \<open>operation_exists\<close> call looks for \<open>ops/MyLib\<close> and
  raises \<^verbatim>\<open>LibraryNotFound\<close>. No operation is created and no path is returned.
\<close>

theorem operation_create_mixed_case_fails:
  "isdir (demo_world []) ''ops''
   \<and> library_exists (demo_world []) ''MyLib'' ''ops'' = Inr False
   \<and> fst (operation_create ''ops'' ''MyLib'' ''do_thing'' (demo_world []))
       = Inl (LibraryNotFound ''ops/MyLib'')
   \<and> isdir (snd (operation_create ''ops'' ''MyLib'' ''do_thing'' (demo_world []))) ''ops/mylib''
   \<and> stat (snd (operation_create ''ops'' ''MyLib'' ''do_thing'' (demo_world [])))
        ''ops/MyLib/do_thing'' = None"
  by code_simp

section \<open>Substituting placeholders\<close>

lemma walk_cong:
  "(\<And>q. is_dir_at r' q = is_dir_at r q) \<Longrightarrow> walk r' p cs = walk r p cs"
  by (induction cs arbitrary: p) auto

lemma walk_mono:
  "(\<And>q. is_dir_at r q \<Longrightarrow> is_dir_at r' q) \<Longrightarrow> walk r p cs = Some x \<Longrightarrow> walk r' p cs = Some x"
  by (induction cs arbitrary: p) (auto split: if_splits)

lemma components_cwd: "cwd w' = cwd w \<Longrightarrow> components w' s = components w s"
  by (simp add: components_def getcwd_def)

lemma resolve_cong:
  "cwd w' = cwd w \<Longrightarrow> (\<And>q. is_dir_at (root w') q = is_dir_at (root w) q)
   \<Longrightarrow> resolve w' s = resolve w s"
  using walk_cong [of "root w'" "root w" "[]" "components w s"] components_cwd [of w' w s]
  by (simp add: resolve_def)

lemma resolve_mono:
  "cwd w' = cwd w \<Longrightarrow> (\<And>q. is_dir_at (root w) q \<Longrightarrow> is_dir_at (root w') q)
   \<Longrightarrow> resolve w s = Some x \<Longrightarrow> resolve w' s = Some x"
  using walk_mono [of "root w" "root w'" "[]" "components w s" x] components_cwd [of w' w s]
  by (auto simp: resolve_def split: if_splits)

lemma lookup_Some_parent_dir:
  assumes "lookup r q = Some n"
  shows "q = [] \<or> is_dir_at r (butlast q)"
proof (cases "q = []")
  case True
  then show ?thesis by simp
next
  case False
  then have "q = butlast q @ [last q]" by simp
  with assms have "lookup r (butlast q @ [last q]) \<noteq> None" by simp
  then have "is_dir_at r (butlast q)" by (rule lookup_Some_prefix_dir) simp
  then show ?thesis by simp
qed

lemma is_dir_put_file_over_file:
  assumes "lookup r q = Some (File t0)"
  shows "is_dir_at (put q (File t) r) p = is_dir_at r p"
proof (cases "prefix q p")
  case False
  then show ?thesis by (rule is_dir_put_other)
next
  case True
  then obtain x where p: "p = q @ x" by (auto simp: prefix_def)
  have "lookup (put q (File t) r) (q @ x) = lookup (File t) x"
    by (rule lookup_put_below) (rule lookup_Some_parent_dir [OF assms])
  moreover have "lookup r (q @ x) = lookup (File t0) x"
    using assms by (simp add: lookup_append)
  ultimately show ?thesis
    unfolding p by (cases x) (simp_all add: is_dir_at_def)
qed

lemma file_text_SomeD:
  "file_text w f = Some t \<Longrightarrow> \<exists>q. resolve w f = Some q \<and> lookup (root w) q = Some (File t)"
  by (auto simp: file_text_def stat_def split: option.splits node.splits)

lemma file_text_SomeI:
  "resolve w f = Some q \<Longrightarrow> lookup (root w) q = Some (File t) \<Longrightarrow> file_text w f = Some t"
  by (simp add: file_text_def stat_def)

lemma read_text_file_text:
  "file_text w f = Some t \<Longrightarrow> read_text w f = Inr (universal_newlines t)"
  by (auto simp: file_text_def read_text_def split: option.splits node.splits)

lemma isfile_file_text: "isfile w f = (\<exists>t. file_text w f = Some t)"
  by (auto simp: isfile_def file_text_def split: option.splits node.splits)

lemma write_text_over_file:
  assumes "resolve w f = Some q" and "lookup (root w) q = Some (File t0)"
  shows "write_text f t w =
           (Inr (), w\<lparr>root := put q (File t) (root w), writes := writes w @ [(f, t)]\<rparr>)"
  using assms by (simp add: write_text_def)

lemma file_text_after_write:
  assumes "resolve w f = Some q" and "lookup (root w) q = Some (File t0)"
  shows "file_text (w\<lparr>root := put q (File t) (root w), writes := ws\<rparr>) f = Some t"
proof (rule file_text_SomeI)
  have "resolve (w\<lparr>root := put q (File t) (root w), writes := ws\<rparr>) f = resolve w f"
    by (rule resolve_cong) (simp_all add: is_dir_put_file_over_file [OF assms(2)])
  with assms(1) show "resolve (w\<lparr>root := put q (File t) (root w), writes := ws\<rparr>) f = Some q"
    by simp
  show "lookup (root (w\<lparr>root := put q (File t) (root w), writes := ws\<rparr>)) q = Some (File t)"
    using lookup_put_same [OF lookup_Some_parent_dir [OF assms(2)]] by simp
qed

lemma replace_loop_passes:
  assumes "\<And>k v. (k, v) \<in> set kvs \<Longrightarrow> map_of placeholders k = Some v"
    and "file_text w f = Some content"
  shows "\<exists>w'. replace_loop f placeholders (map fst kvs) w = (Inr (), w')
           \<and> file_text w' f
               = Some (foldl (\<lambda>t (k, v). py_replace k v (universal_newlines t)) content kvs)
           \<and> writes w' = writes w @ map (Pair f) (pass_texts content kvs)"
  using assms
proof (induction kvs arbitrary: w content)
  case Nil
  then show ?case by simp
next
  case (Cons kv kvs)
  obtain k v where kv: "kv = (k, v)" by (cases kv)
  from Cons.prems(1) kv have look: "map_of placeholders k = Some v" by simp
  from file_text_SomeD [OF Cons.prems(2)] obtain q
    where q: "resolve w f = Some q" "lookup (root w) q = Some (File content)" by blast
  let ?t = "py_replace k v (universal_newlines content)"
  let ?w1 = "w\<lparr>root := put q (File ?t) (root w), writes := writes w @ [(f, ?t)]\<rparr>"
  have rd: "read_text w f = Inr (universal_newlines content)"
    using Cons.prems(2) by (rule read_text_file_text)
  have wr: "write_text f ?t w = (Inr (), ?w1)"
    by (rule write_text_over_file [OF q])
  have ft: "file_text ?w1 f = Some ?t"
    by (rule file_text_after_write [OF q])
  have rest: "\<And>k v. (k, v) \<in> set kvs \<Longrightarrow> map_of placeholders k = Some v"
    using Cons.prems(1) by simp
  from Cons.IH [OF rest ft] obtain w' where
    w': "replace_loop f placeholders (map fst kvs) ?w1 = (Inr (), w')"
        "file_text w' f
           = Some (foldl (\<lambda>t (k, v). py_replace k v (universal_newlines t)) ?t kvs)"
        "writes w' = writes ?w1 @ map (Pair f) (pass_texts ?t kvs)"
    by blast
  have "replace_loop f placeholders (map fst (kv # kvs)) w = (Inr (), w')"
    using rd look wr w'(1) by (simp add: kv)
  moreover have "file_text w' f
      = Some (foldl (\<lambda>t (k, v). py_replace k v (universal_newlines t)) content (kv # kvs))"
    using w'(2) by (simp add: kv)
  moreover have "writes w' = writes w @ map (Pair f) (pass_texts content (kv # kvs))"
    using w'(3) by (simp add: kv)
  ultimately show ?case by blast
qed

subsection \<open>Text without carriage returns\<close>

lemma universal_newlines_id: "CHR 0x0D \<notin> set t \<Longrightarrow> universal_newlines t = t"
  by (induction t rule: universal_newlines.induct) auto

lemma set_replace_from: "set (replace_from old new t) \<subseteq> set t \<union> set new"
proof (induction old new t rule: replace_from.induct)
  case (1 old new)
  show ?case by simp
next
  case (2 old new c cs)
  show ?case
  proof (cases "old \<noteq> [] \<and> prefix old (c # cs)")
    case True
    have "set (drop (length old) (c # cs)) \<subseteq> set (c # cs)" by (rule set_drop_subset)
    with "2.IH"(1) [OF True] True show ?thesis
      by (subst replace_from.simps) auto
  next
    case False
    with "2.IH"(2) [OF False] show ?thesis
      by (subst replace_from.simps) auto
  qed
qed

lemma set_py_replace: "set (py_replace old new t) \<subseteq> set t \<union> set new"
  using set_replace_from [of old new t] by (auto simp: py_replace_def)

lemma passes_without_carriage_return:
  "CHR 0x0D \<notin> set t \<Longrightarrow> list_all (\<lambda>(k, v). CHR 0x0D \<notin> set v) kvs \<Longrightarrow>
   foldl (\<lambda>t (k, v). py_replace k v (universal_newlines t)) t kvs
     = foldl (\<lambda>t (k, v). py_replace k v t) t kvs"
proof (induction kvs arbitrary: t)
  case Nil
  show ?case by simp
next
  case (Cons kv kvs)
  obtain k v where kv: "kv = (k, v)" by (cases kv)
  from Cons.prems kv have v: "CHR 0x0D \<notin> set v"
    and rest: "list_all (\<lambda>(k, v). CHR 0x0D \<notin> set v) kvs" by simp_all
  have "CHR 0x0D \<notin> set (py_replace k v t)"
    using set_py_replace [of k v t] Cons.prems(1) v by auto
  from Cons.IH [OF this rest] show ?case
    by (simp add: kv universal_newlines_id [OF Cons.prems(1)])
qed

subsection \<open>Every occurrence is replaced\<close>

lemma replace_from_no_occurrence:
  "old \<noteq> [] \<Longrightarrow> \<not> sublist old t \<Longrightarrow> replace_from old new t = t"
  by (induction t) (auto simp: sublist_Cons_right)

lemma prefix_append_long:
  "prefix xs (ys @ zs) \<Longrightarrow> length xs \<le> length ys \<Longrightarrow> prefix xs ys"
  by (auto simp: prefix_append)

lemma replace_from_at_occurrence:
  assumes "old \<noteq> []"
  shows "replace_from old new (old @ rest) = new @ replace_from old new rest"
proof -
  from assms obtain c cs where old: "old = c # cs" by (cases old) auto
  have "replace_from old new (c # (cs @ rest)) =
          new @ replace_from old new (drop (length old) (c # (cs @ rest)))"
    using assms by (subst replace_from.simps) (simp add: old)
  then show ?thesis by (simp add: old)
qed

lemma replace_from_first_occurrence:
  assumes "old \<noteq> []" and "\<not> sublist old (s @ butlast old)"
  shows "replace_from old new (s @ old @ rest) = s @ new @ replace_from old new rest"
  using assms(2)
proof (induction s)
  case Nil
  show ?case using replace_from_at_occurrence [OF assms(1)] by simp
next
  case (Cons x s)
  have no: "\<not> prefix old (x # s @ old @ rest)"
  proof
    assume p: "prefix old (x # s @ old @ rest)"
    have split: "x # s @ old @ rest = ((x # s) @ butlast old) @ ([last old] @ rest)"
      using assms(1) by simp
    have "length old \<le> length ((x # s) @ butlast old)" by simp
    with p have "prefix old ((x # s) @ butlast old)"
      unfolding split by (rule prefix_append_long)
    then have "sublist old ((x # s) @ butlast old)" by (rule prefix_imp_sublist)
    with Cons.prems show False by simp
  qed
  have "\<not> sublist old (s @ butlast old)"
    using Cons.prems by (auto simp: sublist_Cons_right)
  from Cons.IH [OF this] no show ?case by simp
qed

lemma py_replace_all_occurrences:
  assumes "old \<noteq> []" and "list_all (\<lambda>s. \<not> sublist old (s @ butlast old)) segs"
    and "\<not> sublist old rest"
  shows "py_replace old new (concat (map (\<lambda>s. s @ old) segs) @ rest)
           = concat (map (\<lambda>s. s @ new) segs) @ rest"
proof -
  have "replace_from old new (concat (map (\<lambda>s. s @ old) segs) @ rest)
          = concat (map (\<lambda>s. s @ new) segs) @ rest"
    using assms(2)
  proof (induction segs)
    case Nil
    show ?case using replace_from_no_occurrence [OF assms(1,3)] by simp
  next
    case (Cons s segs)
    then have s: "\<not> sublist old (s @ butlast old)"
      and rest: "list_all (\<lambda>s. \<not> sublist old (s @ butlast old)) segs" by simp_all
    from replace_from_first_occurrence [OF assms(1) s] Cons.IH [OF rest]
    show ?case by simp
  qed
  with assms(1) show ?thesis by (simp add: py_replace_def)
qed

text \<open>
  C5, as amended. On an existing regular file, \<open>replace_placeholders_in_file\<close> succeeds;
  it makes one write of the whole text per marker, in dictionary order (the write log
  grows by exactly the texts of the passes); each pass is \<^verbatim>\<open>str.replace\<close> of that marker
  on the text the previous pass left as it is read back, that is with universal
  newlines, so the file ends up holding the fold of these steps over its original text.
  When neither the file nor a replacement holds a carriage return, that is the markers
  substituted one after the other in the file's text. \<^verbatim>\<open>str.replace\<close> replaces every
  occurrence: a text of pieces separated by a non-empty marker that occurs nowhere else
  becomes the same pieces separated by the replacement. With \<open>{NAME: Foo}\<close>,
  \<open>Hello NAME\<close> becomes \<open>Hello Foo\<close>.
\<close>

theorem replace_placeholders_passes:
  assumes "distinct (map fst placeholders)" and "file_text w file_path = Some content"
  shows "(\<exists>w'. replace_placeholders_in_file file_path placeholders w = (Inr (), w')
            \<and> file_text w' file_path
                = Some (foldl (\<lambda>t (key, new). py_replace key new (universal_newlines t))
                          content placeholders)
            \<and> writes w' = writes w @ map (Pair file_path) (pass_texts content placeholders))
         \<and> (CHR 0x0D \<notin> set content
              \<and> list_all (\<lambda>(key, new). CHR 0x0D \<notin> set new) placeholders \<longrightarrow>
            foldl (\<lambda>t (key, new). py_replace key new (universal_newlines t)) content placeholders
              = foldl (\<lambda>t (key, new). py_replace key new t) content placeholders)
         \<and> (old \<noteq> [] \<and> list_all (\<lambda>s. \<not> sublist old (s @ butlast old)) segs
              \<and> \<not> sublist old rest \<longrightarrow>
            py_replace old new (concat (map (\<lambda>s. s @ old) segs) @ rest)
              = concat (map (\<lambda>s. s @ new) segs) @ rest)
         \<and> py_replace ''NAME'' ''Foo'' ''Hello NAME'' = ''Hello Foo''"
proof -
  have isf: "isfile w file_path"
    using assms(2) by (auto simp: isfile_file_text)
  have look: "\<And>k v. (k, v) \<in> set placeholders \<Longrightarrow> map_of placeholders k = Some v"
    using assms(1) by simp
  from replace_loop_passes [OF look assms(2)]
  have loop: "\<exists>w'. replace_loop file_path placeholders (map fst placeholders) w = (Inr (), w')
            \<and> file_text w' file_path
                = Some (foldl (\<lambda>t (key, new). py_replace key new (universal_newlines t))
                          content placeholders)
            \<and> writes w' = writes w @ map (Pair file_path) (pass_texts content placeholders)" .
  have unfold: "replace_placeholders_in_file file_path placeholders w
                  = replace_loop file_path placeholders (map fst placeholders) w"
    using isf by (simp add: replace_placeholders_in_file_def)
  have plain: "CHR 0x0D \<notin> set content
              \<and> list_all (\<lambda>(key, new). CHR 0x0D \<notin> set new) placeholders \<longrightarrow>
            foldl (\<lambda>t (key, new). py_replace key new (universal_newlines t)) content placeholders
              = foldl (\<lambda>t (key, new). py_replace key new t) content placeholders"
    using passes_without_carriage_return [of content placeholders] by blast
  have example: "py_replace ''NAME'' ''Foo'' ''Hello NAME'' = ''Hello Foo''"
    by code_simp
  have every: "old \<noteq> [] \<and> list_all (\<lambda>s. \<not> sublist old (s @ butlast old)) segs
              \<and> \<not> sublist old rest \<longrightarrow>
            py_replace old new (concat (map (\<lambda>s. s @ old) segs) @ rest)
              = concat (map (\<lambda>s. s @ new) segs) @ rest"
    using py_replace_all_occurrences [of old segs rest new] by blast
  from loop plain every example show ?thesis
    unfolding unfold by (intro conjI)
qed

theorem replace_placeholders_passes_witness:
  "distinct (map fst [(''NAME'', ''Foo''), (''Foo'', ''Bar'')])
   \<and> file_text (demo_world [(''hello.txt'', File ''Hello NAME'')]) ''ops/hello.txt''
       = Some ''Hello NAME''
   \<and> (\<exists>w'. replace_placeholders_in_file ''ops/hello.txt'' [(''NAME'', ''Foo''), (''Foo'', ''Bar'')]
               (demo_world [(''hello.txt'', File ''Hello NAME'')]) = (Inr (), w')
          \<and> file_text w' ''ops/hello.txt'' = Some ''Hello Bar''
          \<and> writes w' = [(''ops/hello.txt'', ''Hello Foo''), (''ops/hello.txt'', ''Hello Bar'')])
   \<and> CHR 0x0D \<notin> set ''Hello NAME''
   \<and> list_all (\<lambda>(key, new). CHR 0x0D \<notin> set new) [(''NAME'', ''Foo''), (''Foo'', ''Bar'')]
   \<and> foldl (\<lambda>t (key, new). py_replace key new t) ''Hello NAME''
        [(''NAME'', ''Foo''), (''Foo'', ''Bar'')] = ''Hello Bar''
   \<and> list_all (\<lambda>s. \<not> sublist ''NAME'' (s @ butlast ''NAME'')) [''Hello '', '' and '']
   \<and> py_replace ''NAME'' ''Foo'' ''Hello NAME and NAME!'' = ''Hello Foo and Foo!''"
proof -
  have d: "distinct (map fst [(''NAME'', ''Foo''), (''Foo'', ''Bar'')])" by simp
  have r: "file_text (demo_world [(''hello.txt'', File ''Hello NAME'')]) ''ops/hello.txt''
             = Some ''Hello NAME''"
    by code_simp
  have f: "foldl (\<lambda>t (key, new). py_replace key new (universal_newlines t)) ''Hello NAME''
             [(''NAME'', ''Foo''), (''Foo'', ''Bar'')] = ''Hello Bar''"
    by code_simp
  have p: "writes (demo_world [(''hello.txt'', File ''Hello NAME'')])
             @ map (Pair ''ops/hello.txt'')
                 (pass_texts ''Hello NAME'' [(''NAME'', ''Foo''), (''Foo'', ''Bar'')])
             = [(''ops/hello.txt'', ''Hello Foo''), (''ops/hello.txt'', ''Hello Bar'')]"
    by code_simp
  have c1: "CHR 0x0D \<notin> set ''Hello NAME''" by simp
  have c2: "list_all (\<lambda>(key, new). CHR 0x0D \<notin> set new) [(''NAME'', ''Foo''), (''Foo'', ''Bar'')]"
    by simp
  have o1: "''NAME'' \<noteq> []" by simp
  have o2: "list_all (\<lambda>s. \<not> sublist ''NAME'' (s @ butlast ''NAME'')) [''Hello '', '' and '']"
    by code_simp
  have o3: "\<not> sublist ''NAME'' ''!''" by code_simp
  note all = replace_placeholders_passes [OF d r, of "''NAME''" "[''Hello '', '' and '']" "''!''" "''Foo''"]
  note main = all [THEN conjunct1]
  note plain = all [THEN conjunct2, THEN conjunct1, rule_format, OF conjI [OF c1 c2]]
  note every = all [THEN conjunct2, THEN conjunct2, THEN conjunct1, rule_format,
                    OF conjI [OF o1 conjI [OF o2 o3]]]
  have run: "\<exists>w'. replace_placeholders_in_file ''ops/hello.txt'' [(''NAME'', ''Foo''), (''Foo'', ''Bar'')]
               (demo_world [(''hello.txt'', File ''Hello NAME'')]) = (Inr (), w')
          \<and> file_text w' ''ops/hello.txt'' = Some ''Hello Bar''
          \<and> writes w' = [(''ops/hello.txt'', ''Hello Foo''), (''ops/hello.txt'', ''Hello Bar'')]"
    using main unfolding f p .
  have same: "foldl (\<lambda>t (key, new). py_replace key new t) ''Hello NAME''
        [(''NAME'', ''Foo''), (''Foo'', ''Bar'')] = ''Hello Bar''"
    using plain unfolding f by simp
  have occ: "py_replace ''NAME'' ''Foo'' ''Hello NAME and NAME!'' = ''Hello Foo and Foo!''"
    using every by simp
  show ?thesis
    by (intro conjI d r run c1 c2 same o2 occ)
qed

text \<open>
  C5 as stated fails when a replacement holds a carriage return: with
  \<open>{A: x<CR>y, <CR>: -}\<close> on a file holding \<open>A\<close>, the first pass writes \<open>x<CR>y\<close>, the
  second reads it back as \<open>x<LF>y\<close>, finds no carriage return and writes \<open>x<LF>y\<close>;
  substituting the second marker in the output of the first would give \<open>x-y\<close>.
\<close>

theorem replace_placeholders_carriage_return:
  "file_text (demo_world [(''a.txt'', File ''A'')]) ''ops/a.txt'' = Some ''A''
   \<and> fst (replace_placeholders_in_file ''ops/a.txt''
             [(''A'', [CHR ''x'', CHR 0x0D, CHR ''y'']), ([CHR 0x0D], ''-'')]
             (demo_world [(''a.txt'', File ''A'')])) = Inr ()
   \<and> file_text (snd (replace_placeholders_in_file ''ops/a.txt''
             [(''A'', [CHR ''x'', CHR 0x0D, CHR ''y'']), ([CHR 0x0D], ''-'')]
             (demo_world [(''a.txt'', File ''A'')]))) ''ops/a.txt''
       = Some [CHR ''x'', CHR 0x0A, CHR ''y'']
   \<and> writes (snd (replace_placeholders_in_file ''ops/a.txt''
             [(''A'', [CHR ''x'', CHR 0x0D, CHR ''y'']), ([CHR 0x0D], ''-'')]
             (demo_world [(''a.txt'', File ''A'')])))
       = [(''ops/a.txt'', [CHR ''x'', CHR 0x0D, CHR ''y'']),
          (''ops/a.txt'', [CHR ''x'', CHR 0x0A, CHR ''y''])]
   \<and> foldl (\<lambda>t (key, new). py_replace key new t) ''A''
        [(''A'', [CHR ''x'', CHR 0x0D, CHR ''y'']), ([CHR 0x0D], ''-'')] = ''x-y''"
  by code_simp

section \<open>Creating directories and copying trees\<close>

lemma walk_append:
  "walk r p (cs @ cs') = (case walk r p cs of None \<Rightarrow> None | Some q \<Rightarrow> walk r q cs')"
  by (induction cs arbitrary: p) auto

lemma walk_first_dir: "walk r p cs = Some x \<Longrightarrow> cs \<noteq> [] \<Longrightarrow> is_dir_at r p"
  by (cases cs) (auto split: if_splits)

lemma is_dir_butlast: "is_dir_at r p \<Longrightarrow> is_dir_at r (butlast p)"
proof (cases "p = []")
  case True
  then show "is_dir_at r p \<Longrightarrow> is_dir_at r (butlast p)" by simp
next
  case False
  assume d: "is_dir_at r p"
  from False have "p = butlast p @ [last p]" by simp
  moreover from d have "lookup r p \<noteq> None"
    by (auto simp: is_dir_at_def split: option.splits)
  ultimately have "lookup r (butlast p @ [last p]) \<noteq> None" by simp
  then show "is_dir_at r (butlast p)" by (rule lookup_Some_prefix_dir) simp
qed

lemma is_dir_lookup: "is_dir_at r p \<Longrightarrow> lookup r p \<noteq> None"
  by (auto simp: is_dir_at_def split: option.splits)

lemma walk_new_entry:
  "walk r p cs = Some x \<Longrightarrow> cs \<noteq> [] \<Longrightarrow> lookup r x = None
   \<Longrightarrow> x \<noteq> [] \<and> is_dir_at r (butlast x)"
proof (induction cs arbitrary: p)
  case Nil
  then show ?case by simp
next
  case (Cons c cs)
  from Cons.prems(1) have dir: "is_dir_at r p" by (rule walk_first_dir) simp
  show ?case
  proof (cases "cs = []")
    case True
    with Cons.prems dir show ?thesis
      by (auto split: if_splits dest: is_dir_lookup is_dir_butlast)
  next
    case False
    with Cons.prems dir Cons.IH show ?thesis
      by (auto split: if_splits)
  qed
qed

lemma makedirs_walk_new:
  "walk r p cs = Some x \<Longrightarrow> cs \<noteq> [] \<Longrightarrow> lookup r x = None
   \<Longrightarrow> makedirs_walk name r p new cs = (Inr x, put x empty_dir r)"
proof (induction cs arbitrary: p new)
  case Nil
  then show ?case by simp
next
  case (Cons c cs)
  from Cons.prems(1) have dir: "is_dir_at r p" by (rule walk_first_dir) simp
  from Cons.prems(1) have nul: "CHR 0x00 \<notin> set c" by (auto split: if_splits)
  show ?case
  proof (cases "cs = []")
    case True
    with Cons.prems dir nul show ?thesis
      by (auto split: if_splits dest: is_dir_lookup is_dir_butlast)
  next
    case False
    show ?thesis
    proof (cases "c = [] \<or> c = ''.''")
      case True
      with Cons.prems dir nul have "walk r p cs = Some x" by auto
      from Cons.IH [OF this False Cons.prems(3)] True dir nul show ?thesis by auto
    next
      case plain: False
      show ?thesis
      proof (cases "c = ''..''")
        case True
        with Cons.prems dir nul have "walk r (butlast p) cs = Some x" by auto
        from Cons.IH [OF this False Cons.prems(3)] True dir nul show ?thesis by auto
      next
        case name: False
        with Cons.prems dir plain nul have w: "walk r (p @ [c]) cs = Some x" by auto
        from w False have "is_dir_at r (p @ [c])" by (rule walk_first_dir)
        then obtain n where "lookup r (p @ [c]) = Some n"
          by (auto dest: is_dir_lookup)
        with Cons.IH [OF w False Cons.prems(3)] name plain dir nul show ?thesis by auto
      qed
    qed
  qed
qed

lemma components_nonempty: "components w s \<noteq> []"
  by (simp add: components_def py_split_nonempty)

lemma resolve_SomeD:
  "resolve w s = Some x \<Longrightarrow> s \<noteq> [] \<and> walk (root w) [] (components w s) = Some x"
  by (auto simp: resolve_def split: if_splits)

lemma makedirs_new:
  assumes "resolve w s = Some x" and "lookup (root w) x = None"
  shows "makedirs s w = (Inr x, w\<lparr>root := put x empty_dir (root w)\<rparr>)"
proof -
  from resolve_SomeD [OF assms(1)] have s: "s \<noteq> []"
    and wk: "walk (root w) [] (components w s) = Some x" by simp_all
  from makedirs_walk_new [OF wk components_nonempty assms(2)] s
  show ?thesis by (simp add: makedirs_def)
qed

lemma copytree_new:
  assumes "resolve w src = Some sp" and "lookup (root w) sp = Some (Dir m)"
    and "resolve w dst = Some dp" and "lookup (root w) dp = None"
    and "\<not> prefix sp dp"
  shows "copytree src dst w = (Inr dst, w\<lparr>root := put dp (Dir m) (root w)\<rparr>)"
  using assms(1,2,5) makedirs_new [OF assms(3,4)]
  by (simp add: copytree_def put_put)

lemma mkdtemp_fresh:
  assumes "temps w = t # ts" and "resolve w t = Some tp" and "lookup (root w) tp = None"
  shows "mkdtemp w = (Inr t, w\<lparr>root := put tp empty_dir (root w), temps := ts\<rparr>)"
  using assms by (simp add: mkdtemp_def)

lemma rmtree_dir:
  assumes "resolve w p = Some q" and "lookup (root w) q = Some (Dir m)" and "q \<noteq> []"
  shows "rmtree p w = (Inr (), w\<lparr>root := remove q (root w)\<rparr>)"
  using assms by (simp add: rmtree_def)

lemma replace_single_placeholder:
  assumes "resolve w f = Some q" and "lookup (root w) q = Some (File content)"
  shows "replace_placeholders_in_file f [(k, v)] w =
           (Inr (), w\<lparr>root := put q (File (py_replace k v (universal_newlines content))) (root w),
                        writes := writes w @ [(f, py_replace k v (universal_newlines content))]\<rparr>)"
proof -
  have ft: "file_text w f = Some content" by (rule file_text_SomeI [OF assms])
  then have rd: "read_text w f = Inr (universal_newlines content)"
    by (rule read_text_file_text)
  from ft have "isfile w f" by (auto simp: isfile_file_text)
  with rd write_text_over_file [OF assms, of "py_replace k v (universal_newlines content)"]
  show ?thesis by (simp add: replace_placeholders_in_file_def)
qed

lemma py_split_append_sep: "py_split d (u @ d # v) = py_split d u @ py_split d v"
proof (induction u)
  case Nil
  show ?case by simp
next
  case (Cons x u)
  obtain r rs where "py_split d u = r # rs"
    using py_split_nonempty [of d u] by (cases "py_split d u") auto
  with Cons show ?case by simp
qed

lemma ends_with_sepD: "ends_with_sep a \<Longrightarrow> \<exists>a'. a = a' @ ''/''"
proof -
  assume e: "ends_with_sep a"
  then obtain cs where "rev a = CHR ''/'' # cs"
    by (cases "rev a") (auto simp: ends_with_sep_def)
  then have "a = rev cs @ ''/''" by (simp add: rev_swap)
  then show ?thesis by blast
qed

lemma walk_name:
  "is_dir_at r p \<Longrightarrow> c \<noteq> [] \<Longrightarrow> c \<noteq> ''.'' \<Longrightarrow> c \<noteq> ''..'' \<Longrightarrow> CHR 0x00 \<notin> set c
   \<Longrightarrow> walk r p [c] = Some (p @ [c])"
  by simp

lemma walk_join_name:
  assumes wk: "walk r [] (py_split (CHR ''/'') a) = Some p" and dir: "is_dir_at r p"
    and c: "c \<noteq> []" "CHR ''/'' \<notin> set c" "c \<noteq> ''.''" "c \<noteq> ''..''" "CHR 0x00 \<notin> set c"
    and a: "a \<noteq> []"
  shows "walk r [] (py_split (CHR ''/'') (join2 a c)) = Some (p @ [c])"
proof -
  from c(1,2) have rel: "\<not> starts_with_sep c" by (cases c) auto
  have sc: "py_split (CHR ''/'') c = [c]" using c(2) by (rule py_split_no_sep)
  have last: "walk r p [c] = Some (p @ [c])" using dir c(1,3,4,5) by (rule walk_name)
  show ?thesis
  proof (cases "ends_with_sep a")
    case False
    with rel a have "join2 a c = a @ CHR ''/'' # c" by (simp add: join2_def)
    then show ?thesis
      using wk last by (simp add: py_split_append_sep sc walk_append)
  next
    case True
    then obtain a' where a': "a = a' @ ''/''" by (auto dest: ends_with_sepD)
    with rel True have j: "join2 a c = a' @ CHR ''/'' # c" by (simp add: join2_def)
    have "py_split (CHR ''/'') a = py_split (CHR ''/'') a' @ [[]]"
      unfolding a' using py_split_append_sep [of "CHR ''/''" a' "[]"] by simp
    with wk have "walk r [] (py_split (CHR ''/'') a') = Some p"
      by (auto simp: walk_append split: option.splits if_splits)
    then show ?thesis
      using last by (simp add: j py_split_append_sep sc walk_append)
  qed
qed

lemma resolve_join_name:
  assumes "resolve w a = Some p" and "is_dir_at (root w) p"
    and "c \<noteq> []" "CHR ''/'' \<notin> set c" "c \<noteq> ''.''" "c \<noteq> ''..''" "CHR 0x00 \<notin> set c"
  shows "resolve w (path_join a [c]) = Some (p @ [c])"
proof -
  from resolve_SomeD [OF assms(1)] have a: "a \<noteq> []"
    and wk: "walk (root w) [] (py_split (CHR ''/'') (join2 (getcwd w) a)) = Some p"
    by (simp_all add: components_def)
  have ne: "join2 (getcwd w) a \<noteq> []" by (simp add: join2_nonempty getcwd_nonempty)
  from walk_join_name [OF wk assms(2-7) ne]
  have "walk (root w) [] (components w (join2 a c)) = Some (p @ [c])"
    by (simp add: components_def join2_assoc)
  moreover have "join2 a c \<noteq> []" using a by (rule join2_nonempty)
  ultimately show ?thesis by (simp add: resolve_def path_join_def)
qed

lemma lookup_None_prefix: "lookup r x = None \<Longrightarrow> prefix x y \<Longrightarrow> lookup r y = None"
  by (auto simp: prefix_def lookup_None_append)

lemma is_dir_put_new:
  assumes "lookup r x = None" and "is_dir_at r q"
  shows "is_dir_at (put x v r) q"
proof -
  have "\<not> prefix x q"
  proof
    assume "prefix x q"
    with assms(1) have "lookup r q = None" by (rule lookup_None_prefix)
    with is_dir_lookup [OF assms(2)] show False by simp
  qed
  then have "is_dir_at (put x v r) q = is_dir_at r q" by (rule is_dir_put_other)
  with assms(2) show ?thesis by simp
qed

lemma resolve_new_entry:
  assumes "resolve w s = Some x" and "lookup (root w) x = None"
  shows "x \<noteq> [] \<and> is_dir_at (root w) (butlast x)"
  using resolve_SomeD [OF assms(1)]
    walk_new_entry [of "root w" "[]" "components w s" x, OF _ components_nonempty assms(2)]
  by simp

lemma prefix_new_entry:
  assumes "lookup r tp = None" and "x \<noteq> []" and "is_dir_at r (butlast x)" and "tp \<noteq> x"
  shows "\<not> prefix tp x"
proof
  assume p: "prefix tp x"
  from assms(2) obtain ys y where x: "x = ys @ [y]" by (cases x rule: rev_cases) auto
  from p assms(4) have "prefix tp ys" unfolding x by (auto simp: prefix_snoc)
  moreover from assms(3) have "is_dir_at r ys" unfolding x by simp
  ultimately show False
    using lookup_None_prefix [OF assms(1), of ys] is_dir_lookup [of r ys] by simp
qed

subsection \<open>Creating a chain of directories\<close>

lemma put_same_id: "lookup r p = Some v \<Longrightarrow> put p v r = r"
proof (induction p v r rule: put.induct)
  case (1 v n)
  then show ?case by simp
next
  case (2 c cs v t)
  show ?case by simp
next
  case (3 c v m)
  then show ?case by (auto split: option.splits)
next
  case (4 c c' cs v m)
  then show ?case by (auto split: option.splits)
qed

lemma put_put_below: "put (p @ q) v (put p u r) = put p (put q v u) r"
proof (induction p u r rule: put.induct)
  case (1 u n)
  show ?case by simp
next
  case (2 c cs u t)
  show ?case by simp
next
  case (3 c u m)
  show ?case by (cases q) simp_all
next
  case (4 c c' cs u m)
  then show ?case by (auto split: option.splits)
qed

lemma put_nest: "put ns v (nest ns u) = nest ns v"
proof (induction ns)
  case Nil
  show ?case by simp
next
  case (Cons n ns)
  then show ?case by (cases ns) simp_all
qed

lemma lookup_nest: "lookup (nest ns v) (ns @ q) = lookup v q"
  by (induction ns) simp_all

lemma is_dir_nest: "is_dir_at (nest ns (Dir m)) (take k ns)"
proof (induction ns arbitrary: k)
  case Nil
  show ?case by (simp add: is_dir_at_def)
next
  case (Cons n ns)
  show ?case
  proof (cases k)
    case 0
    then show ?thesis by (simp add: is_dir_at_def)
  next
    case (Suc j)
    with Cons [of j] show ?thesis by (simp add: is_dir_at_def)
  qed
qed

lemma put_in_empty_dir:
  assumes "lookup r p = Some empty_dir"
  shows "put (p @ [c]) x r = put p (nest [c] x) r"
proof -
  have "put (p @ [c]) x (put p empty_dir r) = put p (put [c] x empty_dir) r"
    by (rule put_put_below)
  moreover have "put p empty_dir r = r" by (rule put_same_id [OF assms])
  moreover have "put [c] x empty_dir = nest [c] x" by (simp add: empty_dir_def)
  ultimately show ?thesis by simp
qed

lemma makedirs_walk_fresh:
  "lookup r p = Some empty_dir \<Longrightarrow> list_all (\<lambda>c. c \<noteq> ''..'' \<and> CHR 0x00 \<notin> set c) cs
   \<Longrightarrow> makedirs_walk name r p True cs
         = (Inr (p @ entry_names cs), put p (nest (entry_names cs) empty_dir) r)"
proof (induction cs arbitrary: r p)
  case Nil
  then show ?case by (simp add: entry_names_def put_same_id)
next
  case (Cons c cs)
  from Cons.prems(1) have dir: "is_dir_at r p" by (simp add: is_dir_at_def empty_dir_def)
  from Cons.prems(2) have c: "c \<noteq> ''..''" "CHR 0x00 \<notin> set c"
    and cs: "list_all (\<lambda>c. c \<noteq> ''..'' \<and> CHR 0x00 \<notin> set c) cs" by simp_all
  show ?case
  proof (cases "c = [] \<or> c = ''.''")
    case True
    with Cons.IH [OF Cons.prems(1) cs] dir c show ?thesis
      by (auto simp: entry_names_def)
  next
    case False
    let ?r' = "put (p @ [c]) empty_dir r"
    have none: "lookup r (p @ [c]) = None"
      using Cons.prems(1) by (simp add: lookup_append empty_dir_def)
    have here: "lookup ?r' (p @ [c]) = Some empty_dir"
      using dir by (intro lookup_put_same) simp
    have "makedirs_walk name r p True (c # cs) = makedirs_walk name ?r' (p @ [c]) True cs"
      using False dir c none by simp
    also have "\<dots> = (Inr ((p @ [c]) @ entry_names cs),
                     put (p @ [c]) (nest (entry_names cs) empty_dir) ?r')"
      by (rule Cons.IH [OF here cs])
    also have "put (p @ [c]) (nest (entry_names cs) empty_dir) ?r'
                 = put (p @ [c]) (nest (entry_names cs) empty_dir) r"
      by (rule put_put)
    also have "\<dots> = put p (nest [c] (nest (entry_names cs) empty_dir)) r"
      by (rule put_in_empty_dir [OF Cons.prems(1)])
    finally show ?thesis
      using False by (simp add: entry_names_def)
  qed
qed

lemma makedirs_walk_chain:
  assumes "is_dir_at r bp" and "n \<noteq> []" "n \<noteq> ''.''" and "lookup r (bp @ [n]) = None"
    and "list_all (\<lambda>c. c \<noteq> ''..'' \<and> CHR 0x00 \<notin> set c) (n # rest)"
  shows "makedirs_walk name r bp new (n # rest)
           = (Inr (bp @ n # entry_names rest),
              put (bp @ [n]) (nest (entry_names rest) empty_dir) r)"
proof -
  let ?r' = "put (bp @ [n]) empty_dir r"
  from assms(5) have n: "n \<noteq> ''..''" "CHR 0x00 \<notin> set n"
    and rest: "list_all (\<lambda>c. c \<noteq> ''..'' \<and> CHR 0x00 \<notin> set c) rest" by simp_all
  have here: "lookup ?r' (bp @ [n]) = Some empty_dir"
    using assms(1) by (intro lookup_put_same) simp
  have "makedirs_walk name r bp new (n # rest) = makedirs_walk name ?r' (bp @ [n]) True rest"
    using assms(1-4) n by simp
  also have "\<dots> = (Inr ((bp @ [n]) @ entry_names rest),
                   put (bp @ [n]) (nest (entry_names rest) empty_dir) ?r')"
    by (rule makedirs_walk_fresh [OF here rest])
  also have "put (bp @ [n]) (nest (entry_names rest) empty_dir) ?r'
               = put (bp @ [n]) (nest (entry_names rest) empty_dir) r"
    by (rule put_put)
  finally show ?thesis by simp
qed

lemma makedirs_walk_existing:
  "walk r p pre = Some bp \<Longrightarrow> is_dir_at r bp
   \<Longrightarrow> \<exists>new'. makedirs_walk name r p new (pre @ ns) = makedirs_walk name r bp new' ns"
proof (induction pre arbitrary: p new)
  case Nil
  then show ?case by auto
next
  case (Cons c pre)
  from Cons.prems(1) have dir: "is_dir_at r p" by (rule walk_first_dir) simp
  from Cons.prems(1) have nul: "CHR 0x00 \<notin> set c" by (auto split: if_splits)
  show ?case
  proof (cases "c = [] \<or> c = ''.''")
    case True
    with Cons.prems dir nul have "walk r p pre = Some bp" by auto
    from Cons.IH [OF this Cons.prems(2), of new] True dir nul show ?thesis by auto
  next
    case plain: False
    show ?thesis
    proof (cases "c = ''..''")
      case True
      with Cons.prems dir nul have "walk r (butlast p) pre = Some bp" by auto
      from Cons.IH [OF this Cons.prems(2), of False] True dir nul show ?thesis by auto
    next
      case name: False
      with Cons.prems dir plain nul have w: "walk r (p @ [c]) pre = Some bp" by auto
      have "is_dir_at r (p @ [c])"
      proof (cases "pre = []")
        case True
        with w Cons.prems(2) show ?thesis by simp
      next
        case False
        with w show ?thesis by (rule walk_first_dir)
      qed
      then obtain n where "lookup r (p @ [c]) = Some n"
        by (auto dest: is_dir_lookup)
      with Cons.IH [OF w Cons.prems(2), of False] name plain dir nul show ?thesis by auto
    qed
  qed
qed

lemma creatableD:
  assumes "creatable w s bp ns"
  shows "s \<noteq> []"
    and "\<exists>pre. components w s = pre @ ns \<and> walk (root w) [] pre = Some bp"
    and "is_dir_at (root w) bp"
    and "\<exists>n rest. ns = n # rest \<and> n \<noteq> [] \<and> n \<noteq> ''.'' \<and> lookup (root w) (bp @ [n]) = None"
    and "list_all (\<lambda>c. c \<noteq> ''..'' \<and> CHR 0x00 \<notin> set c) ns"
proof -
  let ?cs = "components w s"
  let ?k = "length ?cs - length ns"
  from assms have d: "drop ?k ?cs = ns" and t: "walk (root w) [] (take ?k ?cs) = Some bp"
    by (simp_all add: creatable_def)
  have "?cs = take ?k ?cs @ drop ?k ?cs" by simp
  with d have "?cs = take ?k ?cs @ ns" by simp
  with t show "\<exists>pre. components w s = pre @ ns \<and> walk (root w) [] pre = Some bp" by blast
  from assms show "s \<noteq> []" and "is_dir_at (root w) bp"
    and "list_all (\<lambda>c. c \<noteq> ''..'' \<and> CHR 0x00 \<notin> set c) ns"
    by (simp_all add: creatable_def)
  from assms show "\<exists>n rest. ns = n # rest \<and> n \<noteq> [] \<and> n \<noteq> ''.'' \<and> lookup (root w) (bp @ [n]) = None"
    by (cases ns) (simp_all add: creatable_def)
qed

lemma makedirs_creatable:
  assumes "creatable w s bp (n # rest)"
  shows "makedirs s w = (Inr (bp @ n # entry_names rest),
                         w\<lparr>root := put (bp @ [n]) (nest (entry_names rest) empty_dir) (root w)\<rparr>)"
proof -
  note c = creatableD [OF assms]
  from c(2) obtain pre where pre: "components w s = pre @ n # rest"
    and wk: "walk (root w) [] pre = Some bp" by blast
  from c(4) have n: "n \<noteq> []" "n \<noteq> ''.''" "lookup (root w) (bp @ [n]) = None" by simp_all
  from makedirs_walk_existing [OF wk c(3), of s False "n # rest"] obtain new' where
    "makedirs_walk s (root w) [] False (pre @ n # rest)
       = makedirs_walk s (root w) bp new' (n # rest)" by blast
  also have "\<dots> = (Inr (bp @ n # entry_names rest),
                   put (bp @ [n]) (nest (entry_names rest) empty_dir) (root w))"
    using c(3) n c(5) by (rule makedirs_walk_chain)
  finally show ?thesis
    using c(1) by (simp add: makedirs_def pre)
qed

lemma copytree_creatable:
  assumes "resolve w src = Some sp" and "lookup (root w) sp = Some (Dir m)"
    and "creatable w dst bp (n # rest)"
    and "\<not> prefix sp (bp @ n # entry_names rest)"
  shows "copytree src dst w
           = (Inr dst, w\<lparr>root := put (bp @ [n]) (nest (entry_names rest) (Dir m)) (root w)\<rparr>)"
proof -
  have "put (bp @ n # entry_names rest) (Dir m)
          (put (bp @ [n]) (nest (entry_names rest) empty_dir) (root w))
        = put (bp @ [n]) (nest (entry_names rest) (Dir m)) (root w)"
    using put_put_below [of "bp @ [n]" "entry_names rest" "Dir m"
                            "nest (entry_names rest) empty_dir" "root w"]
    by (simp add: put_nest)
  with assms(1,2,4) makedirs_creatable [OF assms(3)] show ?thesis
    by (simp add: copytree_def)
qed

lemma walk_entries:
  "(\<And>k. k \<le> length (entry_names ns) \<Longrightarrow> is_dir_at r (p @ take k (entry_names ns)))
   \<Longrightarrow> list_all (\<lambda>c. c \<noteq> ''..'' \<and> CHR 0x00 \<notin> set c) ns
   \<Longrightarrow> walk r p ns = Some (p @ entry_names ns)"
proof (induction ns arbitrary: p)
  case Nil
  show ?case by (simp add: entry_names_def)
next
  case (Cons c cs)
  from Cons.prems(1) [of 0] have dir: "is_dir_at r p" by simp
  from Cons.prems(2) have c: "c \<noteq> ''..''" "CHR 0x00 \<notin> set c"
    and cs: "list_all (\<lambda>c. c \<noteq> ''..'' \<and> CHR 0x00 \<notin> set c) cs" by simp_all
  show ?case
  proof (cases "c = [] \<or> c = ''.''")
    case True
    then have e: "entry_names (c # cs) = entry_names cs" by (auto simp: entry_names_def)
    have "walk r p cs = Some (p @ entry_names cs)"
      using Cons.prems(1) cs unfolding e by (intro Cons.IH) auto
    with True dir c show ?thesis by (auto simp: e)
  next
    case False
    then have e: "entry_names (c # cs) = c # entry_names cs" by (auto simp: entry_names_def)
    have "walk r (p @ [c]) cs = Some ((p @ [c]) @ entry_names cs)"
    proof (rule Cons.IH [OF _ cs])
      fix k assume "k \<le> length (entry_names cs)"
      then have "Suc k \<le> length (entry_names (c # cs))" by (simp add: e)
      from Cons.prems(1) [OF this] show "is_dir_at r ((p @ [c]) @ take k (entry_names cs))"
        by (simp add: e)
    qed
    with False dir c show ?thesis by (simp add: e)
  qed
qed

lemma mkdtemp_try_InrD:
  "mkdtemp_try cands w = (Inr t, w1)
   \<Longrightarrow> \<exists>tp ts. resolve w t = Some tp \<and> lookup (root w) tp = None
         \<and> w1 = w\<lparr>root := put tp empty_dir (root w), temps := ts\<rparr>"
proof (induction cands)
  case Nil
  then show ?case by simp
next
  case (Cons c cands)
  show ?case
  proof (cases "resolve w c")
    case None
    with Cons.prems show ?thesis by simp
  next
    case (Some p)
    show ?thesis
    proof (cases "lookup (root w) p = None")
      case True
      with Cons.prems Some show ?thesis by auto
    next
      case False
      with Cons.prems Some have "mkdtemp_try cands w = (Inr t, w1)" by simp
      then show ?thesis by (rule Cons.IH)
    qed
  qed
qed

lemma mkdtemp_InrD:
  "mkdtemp w = (Inr t, w1)
   \<Longrightarrow> \<exists>tp ts. resolve w t = Some tp \<and> lookup (root w) tp = None
         \<and> w1 = w\<lparr>root := put tp empty_dir (root w), temps := ts\<rparr>"
  unfolding mkdtemp_def by (rule mkdtemp_try_InrD)

lemma prefix_append_cases: "prefix a (b @ q) \<Longrightarrow> prefix a b \<or> prefix b a"
  using prefix_same_cases [of a "b @ q" b] by simp

section \<open>library\_create\<close>

lemma isdir_iff: "isdir w s = (\<exists>p. resolve w s = Some p \<and> is_dir_at (root w) p)"
  by (auto simp: isdir_def stat_def is_dir_at_def split: option.splits node.splits)

lemma isdir_mono:
  assumes "isdir w s" and "cwd w' = cwd w"
    and "\<And>q. is_dir_at (root w) q \<Longrightarrow> is_dir_at (root w') q"
  shows "isdir w' s"
proof -
  from assms(1) obtain p where p: "resolve w s = Some p" "is_dir_at (root w) p"
    by (auto simp: isdir_iff)
  from resolve_mono [OF assms(2,3) p(1)] assms(3) [OF p(2)] show ?thesis
    by (auto simp: isdir_iff)
qed

lemma is_dir_atD: "is_dir_at r p \<Longrightarrow> \<exists>m. lookup r p = Some (Dir m)"
  by (auto simp: is_dir_at_def split: option.splits node.splits)

lemma is_dir_atI: "lookup r p = Some (Dir m) \<Longrightarrow> is_dir_at r p"
  by (simp add: is_dir_at_def)

lemma prefix_snoc_left: "prefix (p @ [c]) q \<Longrightarrow> prefix p q"
  by (auto simp: prefix_def)

lemma library_exists_FalseD:
  "library_exists w name d = Inr b \<Longrightarrow> isdir w d"
  by (auto simp: library_exists_def split: if_splits)

lemma creatable_mono:
  assumes "creatable w s bp (n # rest)" and "cwd w' = cwd w"
    and "\<And>q. is_dir_at (root w) q \<Longrightarrow> is_dir_at (root w') q"
    and "lookup (root w') (bp @ [n]) = None"
  shows "creatable w' s bp (n # rest)"
proof -
  have c: "components w' s = components w s" using assms(2) by (rule components_cwd)
  from assms(1) have
    "walk (root w) [] (take (length (components w s) - length (n # rest)) (components w s))
       = Some bp"
    by (simp add: creatable_def)
  from walk_mono [of "root w" "root w'", OF assms(3) this] assms(1,3,4) show ?thesis
    by (simp add: creatable_def c)
qed

lemma resolve_created:
  assumes "creatable w s bp (n # rest)" and "cwd w' = cwd w"
    and "\<And>q. is_dir_at (root w) q \<Longrightarrow> is_dir_at (root w') q"
    and "\<And>k. k \<le> length (entry_names rest)
              \<Longrightarrow> is_dir_at (root w') ((bp @ [n]) @ take k (entry_names rest))"
  shows "resolve w' s = Some (bp @ n # entry_names rest)"
proof -
  note c = creatableD [OF assms(1)]
  from c(2) obtain pre where pre: "components w s = pre @ n # rest"
    and wk: "walk (root w) [] pre = Some bp" by blast
  from c(4) have n: "n \<noteq> []" "n \<noteq> ''.''" by simp_all
  then have e: "entry_names (n # rest) = n # entry_names rest" by (simp add: entry_names_def)
  have wk': "walk (root w') [] pre = Some bp"
    using assms(3) wk by (rule walk_mono)
  have "walk (root w') bp (n # rest) = Some (bp @ entry_names (n # rest))"
  proof (rule walk_entries [OF _ c(5)])
    fix k assume k: "k \<le> length (entry_names (n # rest))"
    show "is_dir_at (root w') (bp @ take k (entry_names (n # rest)))"
    proof (cases k)
      case 0
      with assms(3) [OF c(3)] show ?thesis by simp
    next
      case (Suc j)
      with k have "j \<le> length (entry_names rest)" by (simp add: e)
      from assms(4) [OF this] Suc show ?thesis by (simp add: e)
    qed
  qed
  with wk' have "walk (root w') [] (pre @ n # rest) = Some (bp @ n # entry_names rest)"
    by (simp add: walk_append e)
  with c(1) pre components_cwd [OF assms(2), of s] show ?thesis
    by (simp add: resolve_def)
qed

lemma library_create_run:
  assumes absent: "library_exists w library_name out_dir = Inr False"
    and dest: "creatable w (path_join out_dir [py_lower library_name]) bp (n # rest)"
    and temp: "mkdtemp w = (Inr t, w1)" "resolve w t = Some tp" "tp \<noteq> bp @ [n]"
    and template: "resolve w make_library_template = Some sp"
                  "lookup (root w) sp = Some (Dir m)"
                  "m ''__init__.py'' = Some (File content)"
                  "\<not> prefix sp tp"
  shows "\<exists>w'. library_create library_name out_dir w
                 = (Inr (path_join out_dir [py_lower library_name]), w')
           \<and> isdir w' (path_join out_dir [py_lower library_name])
           \<and> file_text w' (path_join (path_join out_dir [py_lower library_name]) [''__init__.py''])
               = Some (py_replace ''LIBRARYNAME'' (py_lower library_name)
                         (universal_newlines content))
           \<and> library_exists w' (py_lower library_name) out_dir = Inr True"
proof -
  define dst where "dst = path_join out_dir [py_lower library_name]"
  define tmp_dir where "tmp_dir = path_join t [''tmp'']"
  define tmp_init where "tmp_init = path_join tmp_dir [''__init__.py'']"
  define new where
    "new = py_replace ''LIBRARYNAME'' (py_lower library_name) (universal_newlines content)"
  define d1 where "d1 = bp @ [n]"
  define names where "names = entry_names rest"
  define dp where "dp = d1 @ names"
  define td where "td = tp @ [''tmp'']"
  define ti where "ti = td @ [''__init__.py'']"
  define r0 where "r0 = root w"
  define r1 where "r1 = put tp empty_dir r0"
  define r2 where "r2 = put td (Dir m) r1"
  define r3 where "r3 = put ti (File new) r2"
  define w2 where "w2 = w1\<lparr>root := r2\<rparr>"
  define w3 where "w3 = w2\<lparr>root := r3, writes := writes w2 @ [(tmp_init, new)]\<rparr>"
  note dest' = dest [folded dst_def]
  note template' = template [folded r0_def]
  have outdir: "isdir w out_dir" using absent by (rule library_exists_FalseD)

  \<comment> \<open>step 1: mkdtemp\<close>
  from mkdtemp_InrD [OF temp(1)] temp(2) obtain ts where
    none_tp: "lookup r0 tp = None" and w1: "w1 = w\<lparr>root := r1, temps := ts\<rparr>"
    by (auto simp: r0_def r1_def)
  have roots: "root w1 = r1" "root w2 = r2" "root w3 = r3" "root w = r0"
    by (simp_all add: w1 w2_def w3_def r0_def)
  have cwds: "cwd w1 = cwd w" "cwd w2 = cwd w" "cwd w3 = cwd w"
    by (simp_all add: w1 w2_def w3_def)

  \<comment> \<open>the fresh temporary directory and the destination\<close>
  from resolve_new_entry [OF temp(2)] none_tp have tp: "tp \<noteq> []" "is_dir_at r0 (butlast tp)"
    by (simp_all add: r0_def)
  note cr = creatableD [OF dest]
  from cr(3) have bpdir0: "is_dir_at r0 bp" by (simp add: r0_def)
  from cr(4) have none_d1: "lookup r0 d1 = None" and n: "n \<noteq> []" "n \<noteq> ''.''"
    by (simp_all add: r0_def d1_def)
  have tp_d1: "\<not> prefix tp d1"
    using none_tp _ _ temp(3) [folded d1_def]
    by (rule prefix_new_entry) (simp_all add: d1_def bpdir0)
  have td_d1: "\<not> prefix td d1"
    using tp_d1 prefix_snoc_left [of tp "''tmp''" d1] by (auto simp: td_def)
  have ti_d1: "\<not> prefix ti d1"
    using td_d1 prefix_snoc_left [of td "''__init__.py''" d1] by (auto simp: ti_def)

  have ext01: "is_dir_at r1 q" if "is_dir_at r0 q" for q
    unfolding r1_def using none_tp that by (rule is_dir_put_new)
  have look_tp1: "lookup r1 tp = Some empty_dir"
    unfolding r1_def using tp by (intro lookup_put_same) simp
  have tpdir1: "is_dir_at r1 tp"
    using look_tp1 by (simp add: is_dir_at_def empty_dir_def)
  have res_t1: "resolve w1 t = Some tp"
    using cwds(1) _ temp(2) by (rule resolve_mono) (simp add: roots ext01)
  have res_td1: "resolve w1 tmp_dir = Some td"
    unfolding tmp_dir_def td_def
    by (rule resolve_join_name [OF res_t1]) (simp_all add: roots tpdir1)
  have none_td1: "lookup r1 td = None"
    using lookup_put_below [of tp r0 empty_dir "[''tmp'']"] tp
    by (simp add: r1_def td_def empty_dir_def)
  have tp_sp: "\<not> prefix tp sp"
    using lookup_None_prefix [OF none_tp, of sp] template'(2) by auto
  have look_sp1: "lookup r1 sp = Some (Dir m)"
    unfolding r1_def using template'(2) lookup_put_disjoint [OF tp_sp template(4)] by simp
  have res_sp1: "resolve w1 make_library_template = Some sp"
    using cwds(1) _ template(1) by (rule resolve_mono) (simp add: roots ext01)
  have sp_td: "\<not> prefix sp td"
  proof
    assume "prefix sp td"
    then have "sp = td \<or> prefix sp tp" by (auto simp: td_def prefix_snoc)
    with template(4) have "sp = td" by simp
    with none_td1 look_sp1 show False by simp
  qed

  \<comment> \<open>step 2: the template is copied to the temporary directory\<close>
  have s2: "copytree make_library_template tmp_dir w1 = (Inr tmp_dir, w2)"
    using copytree_new [OF res_sp1 _ res_td1 _ sp_td, of m] look_sp1 none_td1
    by (simp add: roots w2_def r2_def)
  have ext12: "is_dir_at r2 q" if "is_dir_at r1 q" for q
    unfolding r2_def using none_td1 that by (rule is_dir_put_new)
  have look_td2: "lookup r2 td = Some (Dir m)"
    unfolding r2_def using tpdir1 by (intro lookup_put_same) (simp add: td_def)
  have tddir2: "is_dir_at r2 td" using look_td2 by (rule is_dir_atI)
  have res_td2: "resolve w2 tmp_dir = Some td"
    using _ _ res_td1 by (rule resolve_mono) (simp_all add: roots cwds ext12)
  have res_ti2: "resolve w2 tmp_init = Some ti"
    unfolding tmp_init_def ti_def
    by (rule resolve_join_name [OF res_td2]) (simp_all add: roots tddir2)
  have look_ti2: "lookup r2 ti = Some (File content)"
    using look_td2 template(3) by (simp add: ti_def lookup_append)

  \<comment> \<open>step 3: the placeholder is substituted in the copy\<close>
  have s3: "replace_placeholders_in_file tmp_init [(''LIBRARYNAME'', py_lower library_name)] w2
             = (Inr (), w3)"
    using replace_single_placeholder [OF res_ti2, of content "''LIBRARYNAME''"
            "py_lower library_name"] look_ti2
    by (simp add: roots w3_def r3_def new_def)
  have eq23: "is_dir_at r3 q = is_dir_at r2 q" for q
    unfolding r3_def using look_ti2 by (rule is_dir_put_file_over_file)
  have res_td3: "resolve w3 tmp_dir = Some td"
    using _ _ res_td2 by (rule resolve_mono) (simp_all add: roots cwds eq23)
  have look_ti3: "lookup r3 ti = Some (File new)"
    unfolding r3_def using tddir2 by (intro lookup_put_same) (simp add: ti_def)
  from tddir2 eq23 have "is_dir_at r3 td" by simp
  then obtain m' where look_td3: "lookup r3 td = Some (Dir m')" by (auto dest: is_dir_atD)
  have m': "m' ''__init__.py'' = Some (File new)"
    using look_ti3 look_td3 by (simp add: ti_def lookup_append split: option.splits)
  have ext03: "is_dir_at r3 q" if "is_dir_at r0 q" for q
    using that by (simp add: eq23 ext12 ext01)
  have none_d13: "lookup r3 d1 = None"
    using none_d1 tp_d1 td_d1 ti_d1
    by (simp add: r3_def r2_def r1_def lookup_None_put_other)
  have dest3: "creatable w3 dst bp (n # rest)"
    using dest' cwds(3) by (rule creatable_mono)
       (simp_all add: roots ext03 none_d13 [unfolded d1_def])
  have d1_td: "\<not> prefix d1 td"
    using lookup_None_prefix [OF none_d13, of td] look_td3 by auto
  have td_below: "\<not> prefix td (d1 @ q)" for q
    using prefix_append_cases [of td d1 q] td_d1 d1_td by auto
  have td_dp: "\<not> prefix td dp" unfolding dp_def by (rule td_below)

  \<comment> \<open>step 4: the copy goes to the lowercased destination\<close>
  define r4 where "r4 = put d1 (nest names (Dir m')) r3"
  define r5 where "r5 = remove td r4"
  define w4 where "w4 = w3\<lparr>root := r4\<rparr>"
  define w5 where "w5 = w4\<lparr>root := r5\<rparr>"
  define w6 where "w6 = w5\<lparr>console := console w5 @
     [''Library successfully created under: '' @ path_join dst [''__init__.py'']]\<rparr>"
  have roots': "root w4 = r4" "root w5 = r5" "root w6 = r5"
    by (simp_all add: w4_def w5_def w6_def)
  have cwds': "cwd w4 = cwd w" "cwd w5 = cwd w" "cwd w6 = cwd w"
    by (simp_all add: w4_def w5_def w6_def cwds)
  have s4: "copytree tmp_dir dst w3 = (Inr dst, w4)"
    using copytree_creatable [OF res_td3 _ dest3, of m'] look_td3 td_dp
    by (simp add: roots w4_def r4_def d1_def dp_def names_def)
  have ext34: "is_dir_at r4 q" if "is_dir_at r3 q" for q
    unfolding r4_def using none_d13 that by (rule is_dir_put_new)
  have res_td4: "resolve w4 tmp_dir = Some td"
    using _ _ res_td3 by (rule resolve_mono) (simp_all add: roots roots' cwds cwds' ext34)
  have look_td4: "lookup r4 td = Some (Dir m')"
    unfolding r4_def using look_td3 lookup_put_disjoint [OF d1_td td_d1] by simp
  have bpdir3: "is_dir_at r3 bp" using bpdir0 by (rule ext03)
  have look_below4: "lookup r4 (d1 @ q) = lookup (nest names (Dir m')) q" for q
    unfolding r4_def using bpdir3 by (intro lookup_put_below) (simp add: d1_def)

  \<comment> \<open>step 5: the temporary copy is removed, the message printed\<close>
  have td_ne: "td \<noteq> []" by (simp add: td_def)
  have s5: "rmtree tmp_dir w4 = (Inr (), w5)"
    using rmtree_dir [OF res_td4 _ td_ne, of m'] look_td4 by (simp add: roots' w5_def r5_def)
  have s6: "cprint (''Library successfully created under: '' @ path_join dst [''__init__.py'']) w5
             = (Inr (), w6)"
    by (simp add: cprint_def w6_def)
  have run: "library_create library_name out_dir w = (Inr dst, w6)"
    using absent outdir temp(1) s2 s3 s4 s5 s6
    by (simp add: library_create_def io_bind_def io_return_def Let_def
                  dst_def [symmetric] tmp_dir_def [symmetric] tmp_init_def [symmetric])

  \<comment> \<open>what the final state holds\<close>
  have ext05: "is_dir_at r5 q" if "is_dir_at r0 q" for q
  proof -
    have "\<not> prefix tp q"
      using lookup_None_prefix [OF none_tp, of q] is_dir_lookup [OF that] by auto
    then have "\<not> prefix td q"
      using prefix_snoc_left [of tp "''tmp''" q] by (auto simp: td_def)
    then have "is_dir_at r5 q = is_dir_at r4 q"
      unfolding r5_def by (rule is_dir_remove_other)
    with ext34 [OF ext03 [OF that]] show ?thesis by simp
  qed
  have below5: "is_dir_at r5 (d1 @ take k names)" for k
  proof -
    have "is_dir_at r5 (d1 @ take k names) = is_dir_at r4 (d1 @ take k names)"
      unfolding r5_def using td_below by (rule is_dir_remove_other)
    also have "\<dots> = is_dir_at (nest names (Dir m')) (take k names)"
      by (simp add: is_dir_at_def look_below4)
    finally show ?thesis by (simp add: is_dir_nest)
  qed
  have res_dst6: "resolve w6 dst = Some dp"
    using resolve_created [OF dest' cwds'(3), of ] ext05 below5
    by (simp add: roots roots' dp_def d1_def names_def)
  have dpdir5: "is_dir_at r5 dp"
    using below5 [of "length names"] by (simp add: dp_def)
  have isdir6: "isdir w6 dst"
    using res_dst6 dpdir5 by (auto simp: isdir_iff roots')
  have res_init6: "resolve w6 (path_join dst [''__init__.py'']) = Some (dp @ [''__init__.py''])"
    by (rule resolve_join_name [OF res_dst6]) (simp_all add: roots' dpdir5)
  have "lookup r5 (dp @ [''__init__.py'']) = lookup r4 (dp @ [''__init__.py''])"
    unfolding r5_def
  proof (rule lookup_remove_disjoint)
    show "\<not> prefix td (dp @ [''__init__.py''])"
      using td_below [of "names @ [''__init__.py'']"] by (simp add: dp_def)
    show "\<not> prefix (dp @ [''__init__.py'']) td"
      using d1_td by (auto simp: dp_def prefix_def)
  qed
  also have "\<dots> = Some (File new)"
    using look_below4 [of "names @ [''__init__.py'']"] m'
    by (simp add: dp_def lookup_nest)
  finally have look_init5: "lookup r5 (dp @ [''__init__.py'']) = Some (File new)" .
  have read6: "file_text w6 (path_join dst [''__init__.py'']) = Some new"
    using res_init6 by (rule file_text_SomeI) (simp add: roots' look_init5)
  have outdir6: "isdir w6 out_dir"
    using outdir cwds'(3) by (rule isdir_mono) (simp add: roots roots' ext05)
  have exists6: "library_exists w6 (py_lower library_name) out_dir = Inr True"
    using outdir6 isdir6 isdir_getcwd_join [OF isdir_nonempty [OF outdir6], of w6 "py_lower library_name"]
    by (simp add: library_exists_def dst_def)
  from run isdir6 read6 exists6 show ?thesis
    unfolding dst_def new_def by (intro exI [of _ w6] conjI)
qed

text \<open>
  C3, as amended. \<open>library_create\<close> tests for the library under the name as given and
  creates it under the lowercased name. Suppose the check finds no library; the path
  \<open>out_dir/lower(name)\<close> can be created: it leads through existing directories to the
  directory \<open>bp\<close> and from there names only entries that do not exist yet, \<open>n\<close> first,
  so directories missing in between are created as well; \<^verbatim>\<open>mkdtemp\<close> succeeds with a
  directory that is not the first of these new entries; and the library template is a
  directory holding a file \<open>__init__.py\<close> and does not contain the temporary directory.
  Then the call returns \<open>out_dir/lower(name)\<close>; afterwards that path is a directory, its
  \<open>__init__.py\<close> is the template's, as read in text mode, with \<open>LIBRARYNAME\<close> replaced by
  the lowercased name, and \<open>library_exists\<close> of the lowercased name answers \<open>True\<close>.
\<close>

theorem library_create_lowercased:
  assumes "library_exists w library_name out_dir = Inr False"
    and "creatable w (path_join out_dir [py_lower library_name]) bp (n # rest)"
    and "mkdtemp w = (Inr t, w1)" and "resolve w t = Some tp" and "tp \<noteq> bp @ [n]"
    and "resolve w make_library_template = Some sp" and "lookup (root w) sp = Some (Dir m)"
    and "m ''__init__.py'' = Some (File content)" and "\<not> prefix sp tp"
  shows "\<exists>w'. library_create library_name out_dir w
                 = (Inr (path_join out_dir [py_lower library_name]), w')
           \<and> isdir w' (path_join out_dir [py_lower library_name])
           \<and> file_text w' (path_join (path_join out_dir [py_lower library_name]) [''__init__.py''])
               = Some (py_replace ''LIBRARYNAME'' (py_lower library_name)
                         (universal_newlines content))
           \<and> library_exists w' (py_lower library_name) out_dir = Inr True"
  using assms by (rule library_create_run)

theorem library_create_lowercased_witness:
  "library_exists (demo_world []) ''X/Y'' ''ops'' = Inr False
   \<and> creatable (demo_world []) ''ops/x/y'' [''repo'', ''ops''] [''x'', ''y'']
   \<and> fst (mkdtemp (demo_world [])) = Inr ''/tmp/tmpa1''
   \<and> resolve (demo_world []) ''/tmp/tmpa1'' = Some [''tmp'', ''tmpa1'']
   \<and> (\<exists>w'. library_create ''X/Y'' ''ops'' (demo_world []) = (Inr ''ops/x/y'', w')
          \<and> isdir w' ''ops/x/y''
          \<and> file_text w' ''ops/x/y/__init__.py'' = Some ''lib = x/y''
          \<and> library_exists w' ''x/y'' ''ops'' = Inr True)"
proof -
  let ?w = "demo_world []"
  let ?sp = "[''repo'', ''operations'', ''base'', ''utils'', ''templates'', ''make_library'']"
  let ?m = "map_of [(''__init__.py'', File ''lib = LIBRARYNAME'')]"
  have e1: "path_join ''ops'' [''x/y''] = ''ops/x/y''" by code_simp
  have e2: "path_join ''ops/x/y'' [''__init__.py''] = ''ops/x/y/__init__.py''" by code_simp
  have e3: "py_lower ''X/Y'' = ''x/y''" by code_simp
  have e4: "py_replace ''LIBRARYNAME'' ''x/y'' (universal_newlines ''lib = LIBRARYNAME'')
              = ''lib = x/y''"
    by code_simp
  have h1: "library_exists ?w ''X/Y'' ''ops'' = Inr False" by code_simp
  have h2: "creatable ?w ''ops/x/y'' [''repo'', ''ops''] [''x'', ''y'']" by code_simp
  have h3: "fst (mkdtemp ?w) = Inr ''/tmp/tmpa1''" by code_simp
  then have h3': "mkdtemp ?w = (Inr ''/tmp/tmpa1'', snd (mkdtemp ?w))"
    by (simp add: prod_eq_iff)
  have h4: "resolve ?w ''/tmp/tmpa1'' = Some [''tmp'', ''tmpa1'']" by code_simp
  have h5: "[''tmp'', ''tmpa1''] \<noteq> [''repo'', ''ops''] @ [''x'']" by simp
  have h6: "resolve ?w make_library_template = Some ?sp" by code_simp
  have h7: "lookup (root ?w) ?sp = Some (Dir ?m)"
    by (simp add: demo_world_def demo_root_def demo_templates_def dir_of_def)
  have h8: "?m ''__init__.py'' = Some (File ''lib = LIBRARYNAME'')" by simp
  have h9: "\<not> prefix ?sp [''tmp'', ''tmpa1'']" by simp
  note run = library_create_lowercased [of ?w "''X/Y''" "''ops''", unfolded e3 e1,
                                        OF h1 h2 h3' h4 h5 h6 h7 h8 h9]
  note run' = run [unfolded e2 e4]
  show ?thesis
    by (intro conjI h1 h2 h3 h4 run')
qed

text \<open>
  C3 as stated fails when the lowercased name is taken: \<open>ops/mylib\<close> exists, no
  library \<open>MyLib\<close> exists under \<open>ops\<close>, and \<open>library_create\<close> of \<open>MyLib\<close> raises
  \<^verbatim>\<open>FileExistsError\<close> from its second \<^verbatim>\<open>copytree\<close>; nothing is returned.
\<close>

theorem library_create_lowercased_taken:
  "isdir (demo_world [(''mylib'', dir_of [])]) ''ops''
   \<and> library_exists (demo_world [(''mylib'', dir_of [])]) ''MyLib'' ''ops'' = Inr False
   \<and> fst (library_create ''MyLib'' ''ops'' (demo_world [(''mylib'', dir_of [])]))
       = Inl (FileExistsError ''ops/mylib'')"
  by code_simp

section \<open>Lowercase names\<close>

text \<open>
  For a name that is its own lowercasing, creating and then checking agree: when the
  check finds no library, the destination can be created and the environment is as
  above, \<open>library_create\<close> succeeds and \<open>library_exists\<close> for the same name then answers
  \<open>True\<close>.
\<close>

theorem library_create_then_exists_lowercase:
  assumes "py_lower library_name = library_name"
    and "library_exists w library_name out_dir = Inr False"
    and "creatable w (path_join out_dir [library_name]) bp (n # rest)"
    and "mkdtemp w = (Inr t, w1)" and "resolve w t = Some tp" and "tp \<noteq> bp @ [n]"
    and "resolve w make_library_template = Some sp" and "lookup (root w) sp = Some (Dir m)"
    and "m ''__init__.py'' = Some (File content)" and "\<not> prefix sp tp"
  shows "\<exists>w'. library_create library_name out_dir w = (Inr (path_join out_dir [library_name]), w')
           \<and> library_exists w' library_name out_dir = Inr True"
proof -
  from library_create_run [of w library_name out_dir bp n rest t w1 tp sp m content] assms
  obtain w' where
    "library_create library_name out_dir w = (Inr (path_join out_dir [library_name]), w')"
    "library_exists w' library_name out_dir = Inr True"
    by auto
  then show ?thesis by (intro exI [of _ w'] conjI)
qed

theorem library_create_then_exists_lowercase_witness:
  "py_lower ''mylib'' = ''mylib''
   \<and> library_exists (demo_world []) ''mylib'' ''ops'' = Inr False
   \<and> creatable (demo_world []) ''ops/mylib'' [''repo'', ''ops''] [''mylib'']
   \<and> fst (mkdtemp (demo_world [])) = Inr ''/tmp/tmpa1''
   \<and> (\<exists>w'. library_create ''mylib'' ''ops'' (demo_world []) = (Inr ''ops/mylib'', w')
          \<and> library_exists w' ''mylib'' ''ops'' = Inr True)"
proof -
  let ?w = "demo_world []"
  let ?sp = "[''repo'', ''operations'', ''base'', ''utils'', ''templates'', ''make_library'']"
  let ?m = "map_of [(''__init__.py'', File ''lib = LIBRARYNAME'')]"
  have e1: "path_join ''ops'' [''mylib''] = ''ops/mylib''" by code_simp
  have h0: "py_lower ''mylib'' = ''mylib''" by code_simp
  have h1: "library_exists ?w ''mylib'' ''ops'' = Inr False" by code_simp
  have h2: "creatable ?w ''ops/mylib'' [''repo'', ''ops''] [''mylib'']" by code_simp
  have h3: "fst (mkdtemp ?w) = Inr ''/tmp/tmpa1''" by code_simp
  then have h3': "mkdtemp ?w = (Inr ''/tmp/tmpa1'', snd (mkdtemp ?w))"
    by (simp add: prod_eq_iff)
  have h4: "resolve ?w ''/tmp/tmpa1'' = Some [''tmp'', ''tmpa1'']" by code_simp
  have h5: "[''tmp'', ''tmpa1''] \<noteq> [''repo'', ''ops''] @ [''mylib'']" by simp
  have h6: "resolve ?w make_library_template = Some ?sp" by code_simp
  have h7: "lookup (root ?w) ?sp = Some (Dir ?m)"
    by (simp add: demo_world_def demo_root_def demo_templates_def dir_of_def)
  have h8: "?m ''__init__.py'' = Some (File ''lib = LIBRARYNAME'')" by simp
  have h9: "\<not> prefix ?sp [''tmp'', ''tmpa1'']" by simp
  note run = library_create_then_exists_lowercase [of "''mylib''" ?w "''ops''", unfolded e1,
                                                   OF h0 h1 h2 h3' h4 h5 h6 h7 h8 h9]
  show ?thesis by (intro conjI h0 h1 h2 h3 run)
qed

text \<open>
  The scenario of the spec, with a lowercase library name: in an empty operations
  directory, \<open>operation_create\<close> of \<open>mylib\<close>, \<open>do_thing\<close> returns
  \<open>ops/mylib/do_thing\<close>; afterwards both existence checks answer \<open>True\<close>, and the
  operation's initializer holds the template with \<open>NEWOPERATION\<close> replaced by
  \<open>DoThing\<close>.
\<close>

theorem operation_create_scenario:
  "fst (operation_create ''ops'' ''mylib'' ''do_thing'' (demo_world []))
     = Inr ''ops/mylib/do_thing''
   \<and> library_exists (snd (operation_create ''ops'' ''mylib'' ''do_thing'' (demo_world [])))
        ''mylib'' ''ops'' = Inr True
   \<and> operation_exists (snd (operation_create ''ops'' ''mylib'' ''do_thing'' (demo_world [])))
        ''ops'' ''mylib'' ''do_thing'' = Inr True
   \<and> file_text (snd (operation_create ''ops'' ''mylib'' ''do_thing'' (demo_world [])))
        ''ops/mylib/do_thing/__init__.py'' = Some ''class DoThing''
   \<and> file_text (snd (operation_create ''ops'' ''mylib'' ''do_thing'' (demo_world [])))
        ''ops/mylib/__init__.py'' = Some ''lib = mylib''"
  by code_simp

end
